theory Spec2Isabelle
  imports Main "HOL-Library.Word" "HOL-Library.Monad_Syntax"
begin

unbundle bit_operations_syntax

section \<open>Data model of the compare engine (Engine.cpp)\<close>

text \<open>
  C++ \<open>int\<close> values are modelled as \<open>int\<close> (documents are far below \<open>2^31\<close> lines),
  \<open>unsigned int\<close> hashes as 32-bit words.  A computation of type \<open>'a option\<close> is \<open>None\<close>
  exactly where the C++ run leaves defined behaviour: a vector read or write outside its
  bounds, an iterator range that ends before it starts, or a vector of negative size.
\<close>

type_synonym u32 = "32 word"

datatype charType = SPACECHAR | ALPHANUMCHAR | OTHERCHAR

record Word =
  w_type :: charType
  w_line :: int
  w_pos :: int
  w_length :: int
  w_hash :: u32

text \<open>\<open>Word::operator==\<close> compares the hashes only.\<close>

definition word_eq :: "Word \<Rightarrow> Word \<Rightarrow> bool" where
  "word_eq a b = (w_hash a = w_hash b)"

record chunk_info =
  lineStart :: int
  lineCount :: int
  lineStartWordIdx :: "int list"
  lineEndWordIdx :: "int list"
  lineMappings :: "int list"
  words :: "Word list"

text \<open>The constructor \<open>chunk_info(line_offset, line_count)\<close>: three vectors of
  \<open>line_count\<close> entries, the mappings all \<open>-1\<close>, no words.\<close>

definition new_chunk_info :: "int \<Rightarrow> int \<Rightarrow> chunk_info option" where
  "new_chunk_info line_offset line_count =
     (if line_count < 0 then None
      else Some \<lparr> lineStart = line_offset, lineCount = line_count,
                  lineStartWordIdx = replicate (nat line_count) 0,
                  lineEndWordIdx = replicate (nat line_count) 0,
                  lineMappings = replicate (nat line_count) (- 1),
                  words = [] \<rparr>)"

text \<open>
  Modelled from the spec: the declarations of \<open>diff.h\<close> are not among the sources.  The
  specification (section 3) gives the kinds of a block, "kind in {MATCH, ONLY_IN_A,
  ONLY_IN_B}", the move states "{NOT_MOVED, MOVED, MOVED_MULTIPLE}", a Change as "a
  character offset and length within a line" and a ChangedLine as "a line index (relative
  to its block) plus an ordered list of Change spans"; the names are those Engine.cpp uses.
\<close>

datatype diff_type = DIFF_MATCH | DIFF_IN_1 | DIFF_IN_2

datatype moved_t = NOT_MOVED | MOVED | MOVED_MULTIPLE

datatype detect_moves_type = DONT_DETECT | BLOCK_BASED | ELEMENT_BASED

record section_t =
  s_off :: int
  s_len :: int

record diff_line =
  dl_line :: int
  dl_changes :: "section_t list"

text \<open>
  Modelled from the spec: \<open>diff_info\<close> (diff.h) is "the unit of the edit script: kind,
  start offset, length, a move-state per covered index, an optional ordered list of
  ChangedLine entries, and an optional back-reference to its paired counterpart block".
  The back-reference \<open>matchedDiff\<close> is a pointer to a sibling element of the vector
  \<open>cmpInfo.diffBlocks\<close>; it is modelled as the index of that element (\<open>None\<close> is the null
  pointer), as section 9 of the specification proposes.  The move states are the list
  \<open>lineMoves\<close>, read by \<open>isMoved\<close>; an index without an entry is not moved.
\<close>

record diff_info =
  d_type :: diff_type
  d_off :: int
  d_len :: int
  matchedDiff :: "nat option"
  changedLines :: "diff_line list"
  lineMoves :: "moved_t list"

definition isMoved :: "diff_info \<Rightarrow> int \<Rightarrow> moved_t" where
  "isMoved bd i =
     (if 0 \<le> i \<and> i < int (length (lineMoves bd)) then lineMoves bd ! nat i else NOT_MOVED)"

text \<open>A checked vector read: \<open>None\<close> where C++ \<open>v[i]\<close> is out of bounds.\<close>

definition nth_opt :: "'a list \<Rightarrow> int \<Rightarrow> 'a option" where
  "nth_opt xs i = (if 0 \<le> i \<and> i < int (length xs) then Some (xs ! nat i) else None)"

text \<open>A checked vector write.\<close>

definition upd_opt :: "'a list \<Rightarrow> int \<Rightarrow> 'a \<Rightarrow> 'a list option" where
  "upd_opt xs i v = (if 0 \<le> i \<and> i < int (length xs) then Some (xs[nat i := v]) else None)"

text \<open>The vector range constructor \<open>vector(v.begin() + i, v.begin() + j)\<close>.\<close>

definition slice_opt :: "'a list \<Rightarrow> int \<Rightarrow> int \<Rightarrow> 'a list option" where
  "slice_opt xs i j =
     (if 0 \<le> i \<and> i \<le> j \<and> j \<le> int (length xs)
      then Some (take (nat (j - i)) (drop (nat i) xs)) else None)"

subsection \<open>Hashing\<close>

text \<open>\<open>ROL(v, n) = (v << n | v >> (UINT_BIT - n))\<close> and \<open>HASH(h, c) = c + ROL(h, 7)\<close>.
  The character is a (signed) \<open>char\<close>, promoted to \<open>int\<close> and converted to unsigned.\<close>

definition ROL :: "u32 \<Rightarrow> nat \<Rightarrow> u32" where
  "ROL v n = (push_bit n v OR drop_bit (32 - n) v)"

definition char_val :: "char \<Rightarrow> u32" where
  "char_val c = (if (of_char c :: nat) < 128 then of_nat (of_char c) else of_nat (of_char c) - 256)"

definition HASH :: "u32 \<Rightarrow> char \<Rightarrow> u32" where
  "HASH h c = char_val c + ROL h 7"

text \<open>\<open>toLowerCase\<close> and \<open>IsCharAlphaNumericA\<close> are external (Tools.h, Windows API); they are
  modelled on the ASCII range, bytes from 128 on are left unchanged and count as
  \<open>OTHERCHAR\<close>.\<close>

definition lower_char :: "char \<Rightarrow> char" where
  "lower_char c =
     (let n = (of_char c :: nat) in if 65 \<le> n \<and> n \<le> 90 then char_of (n + 32) else c)"

definition toLowerCase :: "string \<Rightarrow> string" where
  "toLowerCase s = map lower_char s"

definition IsCharAlphaNumericA :: "char \<Rightarrow> bool" where
  "IsCharAlphaNumericA c =
     (let n = (of_char c :: nat) in
        (48 \<le> n \<and> n \<le> 57) \<or> (65 \<le> n \<and> n \<le> 90) \<or> (97 \<le> n \<and> n \<le> 122))"

definition getCharType :: "char \<Rightarrow> charType" where
  "getCharType letter =
     (if letter = CHR '' '' \<or> letter = CHR 0x09 then SPACECHAR
      else if IsCharAlphaNumericA letter \<or> letter = CHR ''_'' then ALPHANUMCHAR
      else OTHERCHAR)"

subsection \<open>The host editor: Scintilla views\<close>

text \<open>
  The text buffer is an external collaborator (specification, section 6).  A view is
  modelled by its lines (without line ends; a line end counts as one character), the
  log of marker and text-indicator calls it received, and its modified flag.  The marker
  masks are constants of an absent header; only their identity matters here, and
  \<open>NO_MASK\<close> is the mask 0.
\<close>

datatype HWND = scintillaMainHandle | scintillaSecondHandle

datatype marker_mask =
  NO_MASK | MARKER_MASK_ADDED | MARKER_MASK_REMOVED | MARKER_MASK_CHANGED |
  MARKER_MASK_MOVED | MARKER_MASK_MOVED_MULTIPLE

record sci_view =
  sci_lines :: "string list"
  sci_markers :: "(int \<times> marker_mask) list"
  sci_changed :: "(int \<times> int) list"
  sci_modified :: bool

record nppData =
  mainView :: sci_view
  secondView :: sci_view

definition getView :: "nppData \<Rightarrow> HWND \<Rightarrow> sci_view" where
  "getView npp h = (case h of scintillaMainHandle \<Rightarrow> mainView npp
                            | scintillaSecondHandle \<Rightarrow> secondView npp)"

definition setView :: "nppData \<Rightarrow> HWND \<Rightarrow> sci_view \<Rightarrow> nppData" where
  "setView npp h v = (case h of scintillaMainHandle \<Rightarrow> npp\<lparr>mainView := v\<rparr>
                              | scintillaSecondHandle \<Rightarrow> npp\<lparr>secondView := v\<rparr>)"

definition sci_text :: "sci_view \<Rightarrow> string" where
  "sci_text v = concat (map (\<lambda>l. l @ [CHR 0x0A]) (sci_lines v))"

definition SCI_GETLENGTH :: "sci_view \<Rightarrow> int" where
  "SCI_GETLENGTH v = int (length (sci_text v) - 1)"

definition SCI_GETLINECOUNT :: "sci_view \<Rightarrow> int" where
  "SCI_GETLINECOUNT v = int (length (sci_lines v))"

definition SCI_POSITIONFROMLINE :: "sci_view \<Rightarrow> int \<Rightarrow> int" where
  "SCI_POSITIONFROMLINE v n =
     (if 0 \<le> n \<and> n < int (length (sci_lines v))
      then int (length (concat (map (\<lambda>l. l @ [CHR 0x0A]) (take (nat n) (sci_lines v)))))
      else - 1)"

definition SCI_GETLINEENDPOSITION :: "sci_view \<Rightarrow> int \<Rightarrow> int" where
  "SCI_GETLINEENDPOSITION v n =
     (if 0 \<le> n \<and> n < int (length (sci_lines v))
      then SCI_POSITIONFROMLINE v n + int (length (sci_lines v ! nat n))
      else - 1)"

text \<open>\<open>getText\<close> (NppHelpers.h) returns the characters of a range followed by a
  terminating zero; the model returns the characters only, so the source's
  \<open>line.size() - 1\<close> is the length of the result.\<close>

definition getText :: "sci_view \<Rightarrow> int \<Rightarrow> int \<Rightarrow> string" where
  "getText v startPos endPos =
     (if endPos - startPos \<le> 0 \<or> startPos < 0 then []
      else take (nat (endPos - startPos)) (drop (nat startPos) (sci_text v)))"

definition SCI_MARKERADDSET :: "sci_view \<Rightarrow> int \<Rightarrow> marker_mask \<Rightarrow> sci_view" where
  "SCI_MARKERADDSET v ln markerMask = v\<lparr>sci_markers := sci_markers v @ [(ln, markerMask)]\<rparr>"

definition markTextAsChanged :: "sci_view \<Rightarrow> int \<Rightarrow> int \<Rightarrow> sci_view" where
  "markTextAsChanged v p l = v\<lparr>sci_changed := sci_changed v @ [(p, l)]\<rparr>"

text \<open>\<open>SCI_INSERTTEXT\<close> of a line end at position 0: a new empty first line.\<close>

definition SCI_INSERTTEXT_newline :: "sci_view \<Rightarrow> sci_view" where
  "SCI_INSERTTEXT_newline v = v\<lparr>sci_lines := [] # sci_lines v, sci_modified := True\<rparr>"

definition SCI_SETSAVEPOINT :: "sci_view \<Rightarrow> sci_view" where
  "SCI_SETSAVEPOINT v = v\<lparr>sci_modified := False\<rparr>"

definition SCI_GETMODIFY :: "sci_view \<Rightarrow> bool" where
  "SCI_GETMODIFY v = sci_modified v"

subsection \<open>Settings and the progress sink\<close>

text \<open>
  Modelled from the spec: the settings (UserSettings.h is not among the sources) are
  "ignoreCase, ignoreSpaces, detectMoves, detectMovesLineMode, plus which document side
  is considered old"; the field names are those Engine.cpp reads.
\<close>

datatype view_id = MAIN_VIEW | SUB_VIEW

record UserSettings =
  IgnoreCase :: bool
  IgnoreSpaces :: bool
  DetectMoves :: bool
  DetectMovesLineMode :: bool
  OldFileViewId :: view_id

text \<open>
  Modelled from the spec: the progress dialog (ProgressDlg.h is not among the sources)
  is "a cooperative progress/cancellation sink exposing: set expected step count,
  advance one step (returns false if cancelled), move to next phase (returns false if
  cancelled), and a direct is-cancelled query".  The sink counts the queries it has
  answered (\<open>polls\<close>); the user cancels before the query number \<open>cancelAt\<close>
  (\<open>None\<close>: never), and a cancelled sink stays cancelled.
\<close>

record progress_t =
  polls :: nat
  cancelAt :: "nat option"

definition cancelled_now :: "progress_t \<Rightarrow> bool" where
  "cancelled_now p = (case cancelAt p of None \<Rightarrow> False | Some k \<Rightarrow> k \<le> polls p)"

definition polled :: "progress_t \<Rightarrow> progress_t" where
  "polled p = p\<lparr>polls := Suc (polls p)\<rparr>"

definition IsCancelled :: "progress_t \<Rightarrow> bool \<times> progress_t" where
  "IsCancelled p = (cancelled_now p, polled p)"

definition Advance :: "progress_t \<Rightarrow> bool \<times> progress_t" where
  "Advance p = (\<not> cancelled_now p, polled p)"

definition NextPhase :: "progress_t \<Rightarrow> bool \<times> progress_t" where
  "NextPhase p = (\<not> cancelled_now p, polled p)"

text \<open>The tests \<open>progress && progress->IsCancelled()\<close>, \<open>progress && !progress->Advance()\<close>
  and \<open>progress && !progress->NextPhase()\<close>: the answer is "cancelled".\<close>

definition isCancelled_chk :: "progress_t option \<Rightarrow> bool \<times> progress_t option" where
  "isCancelled_chk pr = (case pr of None \<Rightarrow> (False, None)
                         | Some p \<Rightarrow> (fst (IsCancelled p), Some (snd (IsCancelled p))))"

definition advance_chk :: "progress_t option \<Rightarrow> bool \<times> progress_t option" where
  "advance_chk pr = (case pr of None \<Rightarrow> (False, None)
                     | Some p \<Rightarrow> (\<not> fst (Advance p), Some (snd (Advance p))))"

definition nextPhase_chk :: "progress_t option \<Rightarrow> bool \<times> progress_t option" where
  "nextPhase_chk pr = (case pr of None \<Rightarrow> (False, None)
                       | Some p \<Rightarrow> (\<not> fst (NextPhase p), Some (snd (NextPhase p))))"

text \<open>Some query of the sink has been answered "cancelled".\<close>

definition reported :: "progress_t option \<Rightarrow> bool" where
  "reported pr = (case pr of None \<Rightarrow> False
                  | Some p \<Rightarrow> (case cancelAt p of None \<Rightarrow> False | Some k \<Rightarrow> k < polls p))"

subsection \<open>Line hashes\<close>

record DocCmpInfo =
  doc_view :: HWND
  doc_section :: section_t
  blockDiffMask :: marker_mask

definition lineHash :: "UserSettings \<Rightarrow> string \<Rightarrow> u32" where
  "lineHash settings line =
     fold (\<lambda>c h. if IgnoreSpaces settings \<and> (c = CHR '' '' \<or> c = CHR 0x09) then h else HASH h c)
          (if IgnoreCase settings then toLowerCase line else line) 0"

definition docLineText :: "sci_view \<Rightarrow> int \<Rightarrow> string" where
  "docLineText v docLineNum =
     getText v (SCI_POSITIONFROMLINE v docLineNum) (SCI_GETLINEENDPOSITION v docLineNum)"

text \<open>The loop of \<open>computeLineHashes\<close> over the line numbers still to hash; a cancelled
  query (made every 500 lines) returns the empty vector.\<close>

fun hashLines ::
  "sci_view \<Rightarrow> UserSettings \<Rightarrow> int \<Rightarrow> nat list \<Rightarrow> progress_t option \<Rightarrow> u32 list
     \<Rightarrow> u32 list \<times> progress_t option" where
  "hashLines v settings off [] pr acc = (acc, pr)"
| "hashLines v settings off (lineNum # rest) pr acc =
     (let (c, pr') = (if lineNum mod 500 = 0 then isCancelled_chk pr else (False, pr)) in
        if c then ([], pr')
        else hashLines v settings off rest pr'
               (acc @ [lineHash settings (docLineText v (int lineNum + off))]))"

definition computeLineHashes ::
  "nppData \<Rightarrow> progress_t option \<Rightarrow> DocCmpInfo \<Rightarrow> UserSettings
     \<Rightarrow> (u32 list \<times> DocCmpInfo \<times> progress_t option) option" where
  "computeLineHashes npp pr doc settings =
     (let v = getView npp (doc_view doc);
          lineCount = (if SCI_GETLENGTH v \<noteq> 0 then SCI_GETLINECOUNT v else 0);
          sec = doc_section doc;
          sec' = (if s_len sec \<le> 0 \<or> s_off sec + s_len sec > lineCount
                  then sec\<lparr>s_len := lineCount - s_off sec\<rparr> else sec);
          doc' = doc\<lparr>doc_section := sec'\<rparr>
      in if s_len sec' < 0 then None
         else let (hs, pr') = hashLines v settings (s_off sec') [0..<nat (s_len sec')] pr []
              in Some (hs, doc', pr'))"

subsection \<open>Word tokenizer\<close>

definition keepWord :: "UserSettings \<Rightarrow> Word \<Rightarrow> bool" where
  "keepWord settings word = (\<not> IgnoreSpaces settings \<or> w_type word \<noteq> SPACECHAR)"

text \<open>The inner loop of \<open>getWords\<close> from character \<open>i\<close> on, with the word being built.\<close>

fun scanWords :: "UserSettings \<Rightarrow> string \<Rightarrow> int \<Rightarrow> Word \<Rightarrow> Word list \<Rightarrow> Word list" where
  "scanWords settings [] i word ws = (if keepWord settings word then ws @ [word] else ws)"
| "scanWords settings (l # rest) i word ws =
     (if getCharType l = w_type word
      then scanWords settings rest (i + 1)
             (word\<lparr>w_length := w_length word + 1, w_hash := HASH (w_hash word) l\<rparr>) ws
      else scanWords settings rest (i + 1)
             (word\<lparr>w_type := getCharType l, w_hash := HASH 0 l, w_pos := i, w_length := 1\<rparr>)
             (if keepWord settings word then ws @ [word] else ws))"

definition lineWords :: "UserSettings \<Rightarrow> int \<Rightarrow> string \<Rightarrow> Word list \<Rightarrow> Word list" where
  "lineWords settings lineNum line0 ws =
     (case (if IgnoreCase settings then toLowerCase line0 else line0) of
        [] \<Rightarrow> ws
      | c # rest \<Rightarrow>
          scanWords settings rest 1
            \<lparr>w_type = getCharType c, w_line = lineNum, w_pos = 0, w_length = 1,
             w_hash = HASH 0 c\<rparr> ws)"

fun getWords_loop ::
  "sci_view \<Rightarrow> UserSettings \<Rightarrow> nat list \<Rightarrow> chunk_info \<Rightarrow> chunk_info option" where
  "getWords_loop v settings [] chunk = Some chunk"
| "getWords_loop v settings (lineNum # rest) chunk =
     do {
       starts \<leftarrow> upd_opt (lineStartWordIdx chunk) (int lineNum) (int (length (words chunk)));
       let ws = lineWords settings (int lineNum)
                  (docLineText v (int lineNum + lineStart chunk)) (words chunk);
       ends \<leftarrow> upd_opt (lineEndWordIdx chunk) (int lineNum) (int (length ws));
       getWords_loop v settings rest
         (chunk\<lparr>lineStartWordIdx := starts, lineEndWordIdx := ends, words := ws\<rparr>)
     }"

definition getWords :: "sci_view \<Rightarrow> UserSettings \<Rightarrow> chunk_info \<Rightarrow> chunk_info option" where
  "getWords v settings chunk =
     getWords_loop v settings [0..<nat (lineCount chunk)] (chunk\<lparr>words := []\<rparr>)"

subsection \<open>The sequence diff engine\<close>

text \<open>
  \<open>DiffCalc\<close> (diff.h) is not among the sources.  The functions of Engine.cpp take it
  as a parameter: \<open>dcW\<close> is \<open>DiffCalc<Word>(a, b)()\<close> and \<open>dcL d\<close> is
  \<open>DiffCalc<unsigned int>(a, b, d)()\<close>.  Engine.cpp reads a \<open>DIFF_MATCH\<close> or \<open>DIFF_IN_1\<close>
  block as a range of the first sequence and a \<open>DIFF_IN_2\<close> block as a range of the second.
\<close>

type_synonym 'a diffcalc = "'a list \<Rightarrow> 'a list \<Rightarrow> diff_info list"

text \<open>
  Modelled from the spec: DiffCalc, for concrete runs.  "Given two ordered sequences
  S1, S2 of tokens exposing only hash-equality, produce the minimal-edit-script partition
  into MATCH/ONLY_IN_A/ONLY_IN_B runs (classic LCS-based alignment) ...  Ties between
  equally-short edit scripts are broken by preferring matches as early as possible";
  "diffing a sequence against itself yields exactly one MATCH block covering the whole
  length".  \<open>lcsTable eq a b ! i ! j\<close> is the length of a longest common subsequence of
  \<open>drop i a\<close> and \<open>drop j b\<close>; the script is read off from the front.  The move detection
  pass is not modelled: every block has no moved line.
\<close>

fun lcsRow :: "('a \<Rightarrow> 'a \<Rightarrow> bool) \<Rightarrow> 'a \<Rightarrow> 'a list \<Rightarrow> nat list \<Rightarrow> nat list" where
  "lcsRow eq x (y # ys) (d # e # below) =
     (let row = lcsRow eq x ys (e # below) in
        (if eq x y then Suc e else max d (hd row)) # row)"
| "lcsRow eq x ys below = [0]"

fun lcsTable :: "('a \<Rightarrow> 'a \<Rightarrow> bool) \<Rightarrow> 'a list \<Rightarrow> 'a list \<Rightarrow> nat list list" where
  "lcsTable eq [] ys = [replicate (Suc (length ys)) 0]"
| "lcsTable eq (x # xs) ys = (let t = lcsTable eq xs ys in lcsRow eq x ys (hd t) # t)"

fun editScript ::
  "('a \<Rightarrow> 'a \<Rightarrow> bool) \<Rightarrow> 'a list \<Rightarrow> 'a list \<Rightarrow> nat list list \<Rightarrow> diff_type list" where
  "editScript eq [] ys t = replicate (length ys) DIFF_IN_2"
| "editScript eq (x # xs) [] t = replicate (Suc (length xs)) DIFF_IN_1"
| "editScript eq (x # xs) (y # ys) t =
     (if eq x y then DIFF_MATCH # editScript eq xs ys (map tl (tl t))
      else if hd (tl (hd t)) \<le> hd (hd (tl t))
           then DIFF_IN_1 # editScript eq xs (y # ys) (tl t)
           else DIFF_IN_2 # editScript eq (x # xs) ys (map tl t))"

definition new_diff_info :: "diff_type \<Rightarrow> int \<Rightarrow> int \<Rightarrow> diff_info" where
  "new_diff_info t off len =
     \<lparr>d_type = t, d_off = off, d_len = len, matchedDiff = None, changedLines = [],
      lineMoves = []\<rparr>"

fun toBlocks :: "diff_type list \<Rightarrow> int \<Rightarrow> int \<Rightarrow> diff_info list \<Rightarrow> diff_info list" where
  "toBlocks [] i j acc = acc"
| "toBlocks (t # ts) i j acc =
     toBlocks ts (if t = DIFF_IN_2 then i else i + 1) (if t = DIFF_IN_1 then j else j + 1)
       (if acc \<noteq> [] \<and> d_type (last acc) = t
        then butlast acc @ [(last acc)\<lparr>d_len := d_len (last acc) + 1\<rparr>]
        else acc @ [new_diff_info t (if t = DIFF_IN_2 then j else i) 1])"

definition DiffCalc :: "('a \<Rightarrow> 'a \<Rightarrow> bool) \<Rightarrow> 'a diffcalc" where
  "DiffCalc eq a b = toBlocks (editScript eq a b (lcsTable eq a b)) 0 0 []"

definition DiffCalc_words :: "Word diffcalc" where
  "DiffCalc_words = DiffCalc word_eq"

definition DiffCalc_lines :: "detect_moves_type \<Rightarrow> u32 diffcalc" where
  "DiffCalc_lines d = DiffCalc (=)"

subsection \<open>Sub-block offset locator\<close>

text \<open>C++ integer division and remainder truncate towards zero.\<close>

definition c_div :: "int \<Rightarrow> int \<Rightarrow> int" where
  "c_div a b = sgn a * sgn b * (\<bar>a\<bar> div \<bar>b\<bar>)"

definition c_mod :: "int \<Rightarrow> int \<Rightarrow> int" where
  "c_mod a b = a - b * c_div a b"

text \<open>The loop \<open>for (wordIdx = ...)\<close> that counts the alphanumeric words of a range.\<close>

fun countAlnum :: "Word list \<Rightarrow> int list \<Rightarrow> int \<Rightarrow> int option" where
  "countAlnum ws [] n = Some n"
| "countAlnum ws (wordIdx # rest) n =
     do {
       word \<leftarrow> nth_opt ws wordIdx;
       countAlnum ws rest (if w_type word = ALPHANUMCHAR then n + 1 else n)
     }"

fun matchingWords :: "Word list \<Rightarrow> diff_info list \<Rightarrow> int \<Rightarrow> int option" where
  "matchingWords ws [] n = Some n"
| "matchingWords ws (cd # rest) n =
     (if d_type cd = DIFF_MATCH
      then do {
             n' \<leftarrow> countAlnum ws [d_off cd..d_off cd + d_len cd - 1] n;
             matchingWords ws rest n'
           }
      else matchingWords ws rest n)"

text \<open>One probe: the matching words count of the sub-chunk that starts at \<open>line\<close>.\<close>

definition probeCount ::
  "Word diffcalc \<Rightarrow> chunk_info \<Rightarrow> chunk_info \<Rightarrow> int \<Rightarrow> int option" where
  "probeCount dcW shorterChunk longerChunk line =
     do {
       idx \<leftarrow> nth_opt (lineStartWordIdx longerChunk) line;
       words2 \<leftarrow> slice_opt (words longerChunk) idx (int (length (words longerChunk)));
       let pWords1 = (if length (words shorterChunk) > length words2
                      then words2 else words shorterChunk);
       let pWords2 = (if length (words shorterChunk) > length words2
                      then words shorterChunk else words2);
       matchingWords pWords1 (dcW pWords1 pWords2) 0
     }"

text \<open>How the locator ends: with an offset, or with a probe whose reads leave the
  bounds of a vector (undefined behaviour in C++).\<close>

datatype probe_exit = Offset int | OutOfBounds int

text \<open>The probe loop.  It has no obvious bound, so it is a partial function: \<open>None\<close>
  means that the loop runs forever.\<close>

partial_function (option) probeLoop ::
  "Word diffcalc \<Rightarrow> chunk_info \<Rightarrow> chunk_info \<Rightarrow> int \<Rightarrow> int \<Rightarrow> int \<Rightarrow> int \<Rightarrow> int
     \<Rightarrow> probe_exit option" where
  "probeLoop dcW shorterChunk longerChunk endLine step line bestMatchWordsCount
       bestMatchingSubChunkOffset =
     (if line \<le> endLine \<and> line \<noteq> bestMatchingSubChunkOffset
      then (case probeCount dcW shorterChunk longerChunk line of
              None \<Rightarrow> Some (OutOfBounds line)
            | Some matchingWordsCount \<Rightarrow>
                if bestMatchWordsCount > matchingWordsCount
                then probeLoop dcW shorterChunk longerChunk endLine
                       (c_div step 2 + c_mod step 2)
                       (line - (c_div step 2 + c_mod step 2))
                       bestMatchWordsCount bestMatchingSubChunkOffset
                else if matchingWordsCount = 0 then Some (Offset 0)
                else probeLoop dcW shorterChunk longerChunk endLine
                       (c_div step 2 + c_mod step 2)
                       (line + (c_div step 2 + c_mod step 2))
                       matchingWordsCount line)
      else Some (Offset bestMatchingSubChunkOffset))"

declare probeLoop.simps [code]

definition getBestMatchingSubChunkOffset ::
  "Word diffcalc \<Rightarrow> chunk_info \<Rightarrow> chunk_info \<Rightarrow> probe_exit option" where
  "getBestMatchingSubChunkOffset dcW shorterChunk longerChunk =
     (let endLine = lineCount longerChunk - lineCount shorterChunk in
        if endLine \<le> 0 then Some (Offset 0)
        else probeLoop dcW shorterChunk longerChunk endLine (endLine + 1) 0 0 (- 1))"

subsection \<open>Line comparator\<close>

text \<open>The \<open>section_t change\<close> of one run of a line diff.\<close>

definition wordSpan :: "Word list \<Rightarrow> diff_info \<Rightarrow> section_t option" where
  "wordSpan ws ld =
     do {
       first \<leftarrow> nth_opt ws (d_off ld);
       final \<leftarrow> nth_opt ws (d_off ld + d_len ld - 1);
       Some \<lparr>s_off = w_pos first, s_len = w_pos final - w_pos first + w_length final\<rparr>
     }"

fun lineChanges ::
  "Word list \<Rightarrow> Word list \<Rightarrow> diff_info list \<Rightarrow> section_t list \<times> section_t list
     \<Rightarrow> (section_t list \<times> section_t list) option" where
  "lineChanges pWords1 pWords2 [] cs = Some cs"
| "lineChanges pWords1 pWords2 (ld # rest) cs =
     (if d_type ld = DIFF_IN_1
      then do {
             change \<leftarrow> wordSpan pWords1 ld;
             lineChanges pWords1 pWords2 rest (fst cs @ [change], snd cs)
           }
      else if d_type ld = DIFF_IN_2
      then do {
             change \<leftarrow> wordSpan pWords2 ld;
             lineChanges pWords1 pWords2 rest (fst cs, snd cs @ [change])
           }
      else lineChanges pWords1 pWords2 rest cs)"

definition add_changedLine :: "diff_info \<Rightarrow> int \<Rightarrow> section_t list \<Rightarrow> diff_info" where
  "add_changedLine bd ln cs =
     bd\<lparr>changedLines := changedLines bd @ [\<lparr>dl_line = ln, dl_changes = cs\<rparr>]\<rparr>"

text \<open>The body of the loop of \<open>compareLines\<close> for one \<open>line1\<close>.\<close>

definition compareLines_line ::
  "Word diffcalc \<Rightarrow> chunk_info \<Rightarrow> chunk_info \<Rightarrow> int \<Rightarrow> diff_info \<times> diff_info
     \<Rightarrow> (diff_info \<times> diff_info) option" where
  "compareLines_line dcW chunk1 chunk2 line1 bds =
     do {
       line2 \<leftarrow> nth_opt (lineMappings chunk1) line1;
       if line2 = - 1 then Some bds
       else do {
         s1 \<leftarrow> nth_opt (lineStartWordIdx chunk1) line1;
         e1 \<leftarrow> nth_opt (lineEndWordIdx chunk1) line1;
         words1 \<leftarrow> slice_opt (words chunk1) s1 e1;
         s2 \<leftarrow> nth_opt (lineStartWordIdx chunk2) line2;
         e2 \<leftarrow> nth_opt (lineEndWordIdx chunk2) line2;
         words2 \<leftarrow> slice_opt (words chunk2) s2 e2;
         let swapped = (length words1 > length words2);
         let pWords1 = (if swapped then words2 else words1);
         let pWords2 = (if swapped then words1 else words2);
         let lineDiff = dcW pWords1 pWords2;
         if lineDiff = [] then Some bds
         else do {
           cs \<leftarrow> lineChanges pWords1 pWords2 lineDiff ([], []);
           let pBlockDiff1 = add_changedLine (if swapped then snd bds else fst bds)
                               (if swapped then line2 else line1) (fst cs);
           let pBlockDiff2 = add_changedLine (if swapped then fst bds else snd bds)
                               (if swapped then line1 else line2) (snd cs);
           Some (if swapped then (pBlockDiff2, pBlockDiff1) else (pBlockDiff1, pBlockDiff2))
         }
       }
     }"

fun compareLines_loop ::
  "Word diffcalc \<Rightarrow> chunk_info \<Rightarrow> chunk_info \<Rightarrow> int list \<Rightarrow> diff_info \<times> diff_info
     \<Rightarrow> (diff_info \<times> diff_info) option" where
  "compareLines_loop dcW chunk1 chunk2 [] bds = Some bds"
| "compareLines_loop dcW chunk1 chunk2 (line1 # rest) bds =
     do {
       bds' \<leftarrow> compareLines_line dcW chunk1 chunk2 line1 bds;
       compareLines_loop dcW chunk1 chunk2 rest bds'
     }"

definition compareLines ::
  "Word diffcalc \<Rightarrow> diff_info \<Rightarrow> diff_info \<Rightarrow> chunk_info \<Rightarrow> chunk_info
     \<Rightarrow> (diff_info \<times> diff_info) option" where
  "compareLines dcW blockDiff1 blockDiff2 chunk1 chunk2 =
     compareLines_loop dcW chunk1 chunk2 [0..lineCount chunk1 - 1] (blockDiff1, blockDiff2)"

subsection \<open>Block reconciler\<close>

text \<open>The alphanumeric words count of a line of \<open>pChunk2\<close> (\<open>line2Len[line]\<close>).\<close>

definition line2LenOf :: "chunk_info \<Rightarrow> int \<Rightarrow> int option" where
  "line2LenOf pChunk2 ln =
     do {
       s \<leftarrow> nth_opt (lineStartWordIdx pChunk2) ln;
       e \<leftarrow> nth_opt (lineEndWordIdx pChunk2) ln;
       countAlnum (words pChunk2) [s..e - 1] 0
     }"

text \<open>The inner loop over the words of a \<open>DIFF_MATCH\<close> run: \<open>++lineWordsMatch[...][...]\<close>.\<close>

fun matchRun ::
  "chunk_info \<Rightarrow> chunk_info \<Rightarrow> int \<Rightarrow> int \<Rightarrow> int \<Rightarrow> int list \<Rightarrow> int list list
     \<Rightarrow> int list list option" where
  "matchRun pChunk1 pChunk2 startLine1 startLine2 wordOffset [] lineWordsMatch =
     Some lineWordsMatch"
| "matchRun pChunk1 pChunk2 startLine1 startLine2 wordOffset (wordIdx # rest) lineWordsMatch =
     do {
       base1 \<leftarrow> nth_opt (lineStartWordIdx pChunk1) startLine1;
       word1 \<leftarrow> nth_opt (words pChunk1) (wordIdx + base1);
       if w_type word1 = ALPHANUMCHAR
       then do {
         base2 \<leftarrow> nth_opt (lineStartWordIdx pChunk2) startLine2;
         word2 \<leftarrow> nth_opt (words pChunk2) (wordIdx + base2 + wordOffset);
         row \<leftarrow> nth_opt lineWordsMatch (w_line word1);
         n \<leftarrow> nth_opt row (w_line word2);
         row' \<leftarrow> upd_opt row (w_line word2) (n + 1);
         lineWordsMatch' \<leftarrow> upd_opt lineWordsMatch (w_line word1) row';
         matchRun pChunk1 pChunk2 startLine1 startLine2 wordOffset rest lineWordsMatch'
       }
       else matchRun pChunk1 pChunk2 startLine1 startLine2 wordOffset rest lineWordsMatch
     }"

text \<open>The loop over \<open>chunkDiff\<close> with the running \<open>wordOffset\<close>.\<close>

fun syncLines ::
  "chunk_info \<Rightarrow> chunk_info \<Rightarrow> int \<Rightarrow> int \<Rightarrow> diff_info list \<Rightarrow> int \<Rightarrow> int list list
     \<Rightarrow> int list list option" where
  "syncLines pChunk1 pChunk2 startLine1 startLine2 [] wordOffset lineWordsMatch =
     Some lineWordsMatch"
| "syncLines pChunk1 pChunk2 startLine1 startLine2 (cd # rest) wordOffset lineWordsMatch =
     (if d_type cd = DIFF_IN_1
      then syncLines pChunk1 pChunk2 startLine1 startLine2 rest (wordOffset - d_len cd)
             lineWordsMatch
      else if d_type cd = DIFF_IN_2
      then syncLines pChunk1 pChunk2 startLine1 startLine2 rest (wordOffset + d_len cd)
             lineWordsMatch
      else do {
        lineWordsMatch' \<leftarrow>
          matchRun pChunk1 pChunk2 startLine1 startLine2 wordOffset
            [d_off cd..d_off cd + d_len cd - 1] lineWordsMatch;
        syncLines pChunk1 pChunk2 startLine1 startLine2 rest wordOffset lineWordsMatch'
      })"

text \<open>The inner loop over \<open>line2\<close>; the state is
  \<open>(maxConvergence, maxLine2Len, bestMatchingLine2)\<close>.\<close>

fun scanLine2 ::
  "int list list \<Rightarrow> int list \<Rightarrow> diff_info \<Rightarrow> int \<Rightarrow> int list \<Rightarrow> int \<times> int \<times> int
     \<Rightarrow> (int \<times> int \<times> int) option" where
  "scanLine2 lineWordsMatch line2Len pBlockDiff2 line1 [] st = Some st"
| "scanLine2 lineWordsMatch line2Len pBlockDiff2 line1 (line2 # rest) st =
     do {
       row \<leftarrow> nth_opt lineWordsMatch line1;
       m \<leftarrow> nth_opt row line2;
       if m = 0 then scanLine2 lineWordsMatch line2Len pBlockDiff2 line1 rest st
       else do {
         l2 \<leftarrow> nth_opt line2Len line2;
         if l2 = 0 \<or> isMoved pBlockDiff2 line2 \<noteq> NOT_MOVED
         then scanLine2 lineWordsMatch line2Len pBlockDiff2 line1 rest st
         else if c_div (m * 100) l2 > fst st \<or>
                 (c_div (m * 100) l2 = fst st \<and> l2 > fst (snd st))
         then scanLine2 lineWordsMatch line2Len pBlockDiff2 line1 rest
                (c_div (m * 100) l2, l2, line2)
         else scanLine2 lineWordsMatch line2Len pBlockDiff2 line1 rest st
       }
     }"

text \<open>The outer loop over \<open>line1\<close>; the state is the two \<open>lineMappings\<close> vectors and
  \<open>bestMatchingLine2\<close>.\<close>

fun selectLines ::
  "int list list \<Rightarrow> int list \<Rightarrow> diff_info \<Rightarrow> diff_info \<Rightarrow> int \<Rightarrow> int list
     \<Rightarrow> int list \<times> int list \<times> int \<Rightarrow> (int list \<times> int list \<times> int) option" where
  "selectLines lineWordsMatch line2Len pBlockDiff1 pBlockDiff2 lineCount2 [] st = Some st"
| "selectLines lineWordsMatch line2Len pBlockDiff1 pBlockDiff2 lineCount2 (line1 # rest) st =
     (if isMoved pBlockDiff1 line1 \<noteq> NOT_MOVED
      then selectLines lineWordsMatch line2Len pBlockDiff1 pBlockDiff2 lineCount2 rest st
      else do {
        best \<leftarrow> scanLine2 lineWordsMatch line2Len pBlockDiff2 line1
                  [snd (snd st)..lineCount2 - 1] (0, 0, snd (snd st));
        if fst best \<ge> 50
        then do {
          mappings1 \<leftarrow> upd_opt (fst st) line1 (snd (snd best));
          mappings2 \<leftarrow> upd_opt (fst (snd st)) (snd (snd best)) line1;
          selectLines lineWordsMatch line2Len pBlockDiff1 pBlockDiff2 lineCount2 rest
            (mappings1, mappings2, snd (snd best) + 1)
        }
        else selectLines lineWordsMatch line2Len pBlockDiff1 pBlockDiff2 lineCount2 rest
               (fst st, fst (snd st), snd (snd best))
      })"

text \<open>
  The first half of \<open>compareBlocks\<close>, up to the word diff of the two chunks: the chunks
  \<open>*pChunk1\<close> and \<open>*pChunk2\<close> after both swaps, whether \<open>pBlockDiff1\<close> points to
  \<open>blockDiff2\<close>, the values \<open>*pStartLine1\<close> and \<open>*pStartLine2\<close>, and \<open>chunkDiff\<close>.
\<close>

record aligned =
  ac_pChunk1 :: chunk_info
  ac_pChunk2 :: chunk_info
  ac_swapped :: bool
  ac_startLine1 :: int
  ac_startLine2 :: int
  ac_chunkDiff :: "diff_info list"

text \<open>The value the locator hands to \<open>compareBlocks\<close>.\<close>

definition locatedOffset :: "probe_exit option \<Rightarrow> int option" where
  "locatedOffset r = (case r of Some (Offset k) \<Rightarrow> Some k | _ \<Rightarrow> None)"

definition alignChunks ::
  "Word diffcalc \<Rightarrow> nppData \<Rightarrow> DocCmpInfo \<Rightarrow> DocCmpInfo \<Rightarrow> UserSettings
     \<Rightarrow> diff_info \<Rightarrow> diff_info \<Rightarrow> aligned option" where
  "alignChunks dcW npp doc1 doc2 settings blockDiff1 blockDiff2 =
     do {
       c1 \<leftarrow> new_chunk_info (d_off blockDiff1) (d_len blockDiff1);
       c2 \<leftarrow> new_chunk_info (d_off blockDiff2) (d_len blockDiff2);
       chunk1 \<leftarrow> getWords (getView npp (doc_view doc1)) settings c1;
       chunk2 \<leftarrow> getWords (getView npp (doc_view doc2)) settings c2;
       let swap1 = (lineCount chunk1 > lineCount chunk2);
       let chunkA = (if swap1 then chunk2 else chunk1);
       let chunkB = (if swap1 then chunk1 else chunk2);
       startLine \<leftarrow> locatedOffset (getBestMatchingSubChunkOffset dcW chunkA chunkB);
       idx \<leftarrow> nth_opt (lineStartWordIdx chunkB) startLine;
       words2 \<leftarrow> slice_opt (words chunkB) idx (int (length (words chunkB)));
       let swap2 = (length (words chunkA) > length words2);
       let pWords1 = (if swap2 then words2 else words chunkA);
       let pWords2 = (if swap2 then words chunkA else words2);
       Some \<lparr>ac_pChunk1 = (if swap2 then chunkB else chunkA),
             ac_pChunk2 = (if swap2 then chunkA else chunkB),
             ac_swapped = (swap1 \<noteq> swap2),
             ac_startLine1 = (if swap2 then startLine else 0),
             ac_startLine2 = (if swap2 then 0 else startLine),
             ac_chunkDiff = dcW pWords1 pWords2\<rparr>
     }"

text \<open>The vector \<open>line2Len\<close> and the matrix \<open>lineWordsMatch\<close> when it is complete.\<close>

definition line2LenAll :: "aligned \<Rightarrow> int list option" where
  "line2LenAll a = those (map (line2LenOf (ac_pChunk2 a)) [0..lineCount (ac_pChunk2 a) - 1])"

definition lineWordsMatchAll :: "aligned \<Rightarrow> int list list option" where
  "lineWordsMatchAll a =
     syncLines (ac_pChunk1 a) (ac_pChunk2 a) (ac_startLine1 a) (ac_startLine2 a)
       (ac_chunkDiff a) 0
       (replicate (nat (lineCount (ac_pChunk1 a))) (replicate (nat (lineCount (ac_pChunk2 a))) 0))"

text \<open>The second half of \<open>compareBlocks\<close>, from the declaration of \<open>lineWordsMatch\<close> to the
  end of the selection loop: the two chunks with their line mappings.\<close>

definition matchLines ::
  "aligned \<Rightarrow> diff_info \<Rightarrow> diff_info \<Rightarrow> (chunk_info \<times> chunk_info) option" where
  "matchLines a pBlockDiff1 pBlockDiff2 =
     do {
       line2Len \<leftarrow> line2LenAll a;
       lineWordsMatch \<leftarrow> lineWordsMatchAll a;
       sel \<leftarrow> selectLines lineWordsMatch line2Len pBlockDiff1 pBlockDiff2
                (lineCount (ac_pChunk2 a)) [0..lineCount (ac_pChunk1 a) - 1]
                (lineMappings (ac_pChunk1 a), lineMappings (ac_pChunk2 a), 0);
       Some ((ac_pChunk1 a)\<lparr>lineMappings := fst sel\<rparr>,
             (ac_pChunk2 a)\<lparr>lineMappings := fst (snd sel)\<rparr>)
     }"

text \<open>
  What \<open>compareBlocks\<close> leaves behind: its return value, the two blocks, and (for the
  properties of the line mappings) the local chunks \<open>*pChunk1\<close> and \<open>*pChunk2\<close> as they
  are when the function returns; \<open>cb_swapped\<close> tells that \<open>pBlockDiff1\<close> points to
  \<open>blockDiff2\<close>.
\<close>

record cmp_blocks =
  cb_result :: bool
  cb_blockDiff1 :: diff_info
  cb_blockDiff2 :: diff_info
  cb_pChunk1 :: chunk_info
  cb_pChunk2 :: chunk_info
  cb_swapped :: bool

definition compareBlocks ::
  "Word diffcalc \<Rightarrow> nppData \<Rightarrow> DocCmpInfo \<Rightarrow> DocCmpInfo \<Rightarrow> UserSettings
     \<Rightarrow> diff_info \<Rightarrow> diff_info \<Rightarrow> cmp_blocks option" where
  "compareBlocks dcW npp doc1 doc2 settings blockDiff1 blockDiff2 =
     do {
       a \<leftarrow> alignChunks dcW npp doc1 doc2 settings blockDiff1 blockDiff2;
       if ac_chunkDiff a = []
       then Some \<lparr>cb_result = False, cb_blockDiff1 = blockDiff1, cb_blockDiff2 = blockDiff2,
                  cb_pChunk1 = ac_pChunk1 a, cb_pChunk2 = ac_pChunk2 a,
                  cb_swapped = ac_swapped a\<rparr>
       else do {
         chunks \<leftarrow> matchLines a (if ac_swapped a then blockDiff2 else blockDiff1)
                                  (if ac_swapped a then blockDiff1 else blockDiff2);
         bds \<leftarrow> compareLines dcW (if ac_swapped a then blockDiff2 else blockDiff1)
                  (if ac_swapped a then blockDiff1 else blockDiff2) (fst chunks) (snd chunks);
         Some \<lparr>cb_result = True,
               cb_blockDiff1 = (if ac_swapped a then snd bds else fst bds),
               cb_blockDiff2 = (if ac_swapped a then fst bds else snd bds),
               cb_pChunk1 = fst chunks, cb_pChunk2 = snd chunks, cb_swapped = ac_swapped a\<rparr>
       }
     }"

subsection \<open>Marking and alignment\<close>

definition markerMaskOf :: "diff_info \<Rightarrow> DocCmpInfo \<Rightarrow> int \<Rightarrow> marker_mask" where
  "markerMaskOf bd doc i =
     (if isMoved bd i = NOT_MOVED then blockDiffMask doc
      else if isMoved bd i = MOVED then MARKER_MASK_MOVED else MARKER_MASK_MOVED_MULTIPLE)"

definition markSection :: "diff_info \<Rightarrow> DocCmpInfo \<Rightarrow> nppData \<Rightarrow> nppData" where
  "markSection bd doc npp =
     setView npp (doc_view doc)
       (fold (\<lambda>i v. SCI_MARKERADDSET v (d_off bd + i) (markerMaskOf bd doc i))
          [s_off (doc_section doc)..s_off (doc_section doc) + s_len (doc_section doc) - 1]
          (getView npp (doc_view doc)))"

text \<open>One half of \<open>markLineDiffs\<close>: the changes and the marker of one changed line.\<close>

definition markChangedLine :: "HWND \<Rightarrow> diff_info \<Rightarrow> int \<Rightarrow> nppData \<Rightarrow> nppData option" where
  "markChangedLine h bd lineIdx npp =
     do {
       cl \<leftarrow> nth_opt (changedLines bd) lineIdx;
       let ln = d_off bd + dl_line cl;
       let linePos = SCI_POSITIONFROMLINE (getView npp h) ln;
       let v = fold (\<lambda>change v. markTextAsChanged v (linePos + s_off change) (s_len change))
                 (dl_changes cl) (getView npp h);
       Some (setView npp h (SCI_MARKERADDSET v ln MARKER_MASK_CHANGED))
     }"

text \<open>\<open>markLineDiffs\<close>; \<open>md\<close> is the block \<open>*bd.matchedDiff\<close>.\<close>

definition markLineDiffs ::
  "HWND \<Rightarrow> HWND \<Rightarrow> diff_info \<Rightarrow> diff_info \<Rightarrow> int \<Rightarrow> nppData \<Rightarrow> nppData option" where
  "markLineDiffs view1 view2 bd md lineIdx npp =
     do {
       npp' \<leftarrow> markChangedLine view1 bd lineIdx npp;
       markChangedLine view2 md lineIdx npp'
     }"

text \<open>
  Modelled from the spec: an alignment entry (Engine.h is not among the sources) is "a pair
  of (line-number, visual-mask) records, one per document side".
\<close>

record AlignmentViewData =
  al_line :: int
  al_diffMask :: marker_mask

record AlignmentPair =
  al_main :: AlignmentViewData
  al_sub :: AlignmentViewData

text \<open>
  The state of \<open>markAllDiffs\<close>: the views, the two documents of \<open>cmpInfo\<close> (their
  sections are overwritten), the alignment data \<open>*pMainAlignData\<close> and \<open>*pSubAlignData\<close>,
  the output list and the progress sink.  \<open>ms_swapped\<close> tells that \<open>pMainAlignData\<close>
  points to \<open>alignPair.sub\<close> (document 1 is shown in the second view).
\<close>

record mark_state =
  ms_npp :: nppData
  ms_doc1 :: DocCmpInfo
  ms_doc2 :: DocCmpInfo
  ms_pMain :: AlignmentViewData
  ms_pSub :: AlignmentViewData
  ms_swapped :: bool
  ms_alignmentInfo :: "AlignmentPair list"
  ms_progress :: "progress_t option"

definition alignPair :: "mark_state \<Rightarrow> AlignmentPair" where
  "alignPair st = (if ms_swapped st then \<lparr>al_main = ms_pSub st, al_sub = ms_pMain st\<rparr>
                   else \<lparr>al_main = ms_pMain st, al_sub = ms_pSub st\<rparr>)"

definition push_back_alignPair :: "mark_state \<Rightarrow> mark_state" where
  "push_back_alignPair st = st\<lparr>ms_alignmentInfo := ms_alignmentInfo st @ [alignPair st]\<rparr>"

definition setDiffMasks :: "marker_mask \<Rightarrow> marker_mask \<Rightarrow> mark_state \<Rightarrow> mark_state" where
  "setDiffMasks m1 m2 st =
     st\<lparr>ms_pMain := (ms_pMain st)\<lparr>al_diffMask := m1\<rparr>,
        ms_pSub := (ms_pSub st)\<lparr>al_diffMask := m2\<rparr>\<rparr>"

definition setSectionLens :: "int \<Rightarrow> int \<Rightarrow> mark_state \<Rightarrow> mark_state" where
  "setSectionLens l1 l2 st =
     st\<lparr>ms_doc1 := (ms_doc1 st)\<lparr>doc_section := (doc_section (ms_doc1 st))\<lparr>s_len := l1\<rparr>\<rparr>,
        ms_doc2 := (ms_doc2 st)\<lparr>doc_section := (doc_section (ms_doc2 st))\<lparr>s_len := l2\<rparr>\<rparr>\<rparr>"

definition setSectionOffs :: "int \<Rightarrow> int \<Rightarrow> mark_state \<Rightarrow> mark_state" where
  "setSectionOffs o1 o2 st =
     st\<lparr>ms_doc1 := (ms_doc1 st)\<lparr>doc_section := (doc_section (ms_doc1 st))\<lparr>s_off := o1\<rparr>\<rparr>,
        ms_doc2 := (ms_doc2 st)\<lparr>doc_section := (doc_section (ms_doc2 st))\<lparr>s_off := o2\<rparr>\<rparr>\<rparr>"

text \<open>The statements that mark the unchanged lines in front of a changed line (or behind
  the last one): an alignment entry if either section is non-empty, then the markers and
  the line counters of each non-empty section.\<close>

definition markGap :: "diff_info \<Rightarrow> diff_info \<Rightarrow> mark_state \<Rightarrow> mark_state" where
  "markGap bd md st0 =
     (let st1 = (if s_len (doc_section (ms_doc1 st0)) \<noteq> 0 \<or> s_len (doc_section (ms_doc2 st0)) \<noteq> 0
                 then push_back_alignPair
                        (setDiffMasks (blockDiffMask (ms_doc1 st0)) (blockDiffMask (ms_doc2 st0)) st0)
                 else st0);
          st2 = (if s_len (doc_section (ms_doc1 st1)) \<noteq> 0
                 then st1\<lparr>ms_npp := markSection bd (ms_doc1 st1) (ms_npp st1),
                          ms_pMain := (ms_pMain st1)\<lparr>al_line := al_line (ms_pMain st1)
                                                        + s_len (doc_section (ms_doc1 st1))\<rparr>\<rparr>
                 else st1)
      in (if s_len (doc_section (ms_doc2 st2)) \<noteq> 0
          then st2\<lparr>ms_npp := markSection md (ms_doc2 st2) (ms_npp st2),
                   ms_pSub := (ms_pSub st2)\<lparr>al_line := al_line (ms_pSub st2)
                                                + s_len (doc_section (ms_doc2 st2))\<rparr>\<rparr>
          else st2))"

text \<open>The loop \<open>for (j = 0; j < changedLinesCount; ++j)\<close> of a reconciled pair.\<close>

fun markChangedLines ::
  "diff_info \<Rightarrow> diff_info \<Rightarrow> int list \<Rightarrow> mark_state \<Rightarrow> mark_state option" where
  "markChangedLines bd md [] st = Some st"
| "markChangedLines bd md (j # rest) st =
     do {
       cl1 \<leftarrow> nth_opt (changedLines bd) j;
       cl2 \<leftarrow> nth_opt (changedLines md) j;
       let st1 = markGap bd md
                   (setSectionLens (dl_line cl1 - s_off (doc_section (ms_doc1 st)))
                                   (dl_line cl2 - s_off (doc_section (ms_doc2 st))) st);
       let st2 = push_back_alignPair (setDiffMasks MARKER_MASK_CHANGED MARKER_MASK_CHANGED st1);
       npp' \<leftarrow> markLineDiffs (doc_view (ms_doc1 st2)) (doc_view (ms_doc2 st2)) bd md j
                 (ms_npp st2);
       let st3 = setSectionOffs (dl_line cl1 + 1) (dl_line cl2 + 1) (st2\<lparr>ms_npp := npp'\<rparr>);
       markChangedLines bd md rest
         (st3\<lparr>ms_pMain := (ms_pMain st3)\<lparr>al_line := al_line (ms_pMain st3) + 1\<rparr>,
              ms_pSub := (ms_pSub st3)\<lparr>al_line := al_line (ms_pSub st3) + 1\<rparr>\<rparr>)
     }"

text \<open>The three branches of the loop body of \<open>markAllDiffs\<close>, before the common tail.\<close>

definition markBlock :: "diff_info list \<Rightarrow> diff_info \<Rightarrow> mark_state \<Rightarrow> mark_state option" where
  "markBlock diffBlocks bd st =
     (if d_type bd = DIFF_MATCH
      then (let st1 = push_back_alignPair (setDiffMasks NO_MASK NO_MASK st) in
              Some (st1\<lparr>ms_pMain := (ms_pMain st1)\<lparr>al_line := al_line (ms_pMain st1) + d_len bd\<rparr>,
                        ms_pSub := (ms_pSub st1)\<lparr>al_line := al_line (ms_pSub st1) + d_len bd\<rparr>\<rparr>))
      else if d_type bd = DIFF_IN_2
      then (let st1 = st\<lparr>ms_doc2 := (ms_doc2 st)\<lparr>doc_section := \<lparr>s_off = 0, s_len = d_len bd\<rparr>\<rparr>\<rparr>;
                st2 = st1\<lparr>ms_npp := markSection bd (ms_doc2 st1) (ms_npp st1)\<rparr>;
                st3 = push_back_alignPair (setDiffMasks NO_MASK (blockDiffMask (ms_doc2 st2)) st2)
            in Some (st3\<lparr>ms_pSub := (ms_pSub st3)\<lparr>al_line := al_line (ms_pSub st3) + d_len bd\<rparr>\<rparr>))
      else (case matchedDiff bd of
              Some k \<Rightarrow>
                do {
                  md \<leftarrow> nth_opt diffBlocks (int k);
                  st1 \<leftarrow> markChangedLines bd md [0..int (length (changedLines bd)) - 1]
                           (setSectionOffs 0 0 st);
                  Some (markGap bd md
                          (setSectionLens (d_len bd - s_off (doc_section (ms_doc1 st1)))
                                          (d_len md - s_off (doc_section (ms_doc2 st1))) st1))
                }
            | None \<Rightarrow>
                (let st1 = st\<lparr>ms_doc1 := (ms_doc1 st)\<lparr>doc_section := \<lparr>s_off = 0, s_len = d_len bd\<rparr>\<rparr>\<rparr>;
                     st2 = st1\<lparr>ms_npp := markSection bd (ms_doc1 st1) (ms_npp st1)\<rparr>;
                     st3 = push_back_alignPair
                             (setDiffMasks (blockDiffMask (ms_doc1 st2)) NO_MASK st2)
                 in Some (st3\<lparr>ms_pMain := (ms_pMain st3)\<lparr>al_line := al_line (ms_pMain st3)
                                                                + d_len bd\<rparr>\<rparr>))))"

text \<open>The loop of \<open>markAllDiffs\<close> from block \<open>i\<close> on; a reconciled pair takes two blocks.
  The boolean is the return value so far (\<open>False\<close>: cancelled).\<close>

function markAllDiffs_loop ::
  "diff_info list \<Rightarrow> nat \<Rightarrow> mark_state \<Rightarrow> (bool \<times> mark_state) option" where
  "markAllDiffs_loop diffBlocks i st =
     (if i < length diffBlocks
      then (case markBlock diffBlocks (diffBlocks ! i) st of
              None \<Rightarrow> None
            | Some st1 \<Rightarrow>
                (let st2 = push_back_alignPair (setDiffMasks NO_MASK NO_MASK st1);
                     chk = advance_chk (ms_progress st2);
                     st3 = st2\<lparr>ms_progress := snd chk\<rparr>
                 in if fst chk then Some (False, st3)
                    else markAllDiffs_loop diffBlocks
                           (if d_type (diffBlocks ! i) = DIFF_IN_1 \<and> matchedDiff (diffBlocks ! i) \<noteq> None
                            then i + 2 else i + 1) st3))
      else Some (True, st))"
  by pat_completeness auto
termination
  by (relation "measure (\<lambda>(diffBlocks, i, st). length diffBlocks - i)") auto

definition markAllDiffs ::
  "nppData \<Rightarrow> progress_t option \<Rightarrow> DocCmpInfo \<Rightarrow> DocCmpInfo \<Rightarrow> diff_info list
     \<Rightarrow> (bool \<times> mark_state) option" where
  "markAllDiffs npp pr doc1 doc2 diffBlocks =
     do {
       r \<leftarrow> markAllDiffs_loop diffBlocks 0
              \<lparr>ms_npp = npp, ms_doc1 = doc1, ms_doc2 = doc2,
               ms_pMain = \<lparr>al_line = s_off (doc_section doc1), al_diffMask = NO_MASK\<rparr>,
               ms_pSub = \<lparr>al_line = s_off (doc_section doc2), al_diffMask = NO_MASK\<rparr>,
               ms_swapped = (doc_view doc1 = scintillaSecondHandle),
               ms_alignmentInfo = [], ms_progress = pr\<rparr>;
       if fst r
       then (let chk = nextPhase_chk (ms_progress (snd r)) in
               Some (\<not> fst chk, (snd r)\<lparr>ms_progress := snd chk\<rparr>))
       else Some r
     }"

subsection \<open>Orchestrator\<close>

text \<open>
  Modelled from the spec: the status (Engine.h) is "a single result status in {MATCH,
  MISMATCH, CANCELLED, ERROR}".
\<close>

datatype CompareResult = COMPARE_ERROR | COMPARE_CANCELLED | COMPARE_MATCH | COMPARE_MISMATCH

text \<open>
  What an invocation of \<open>runCompare\<close> leaves behind: the returned status, the caller's
  \<open>alignmentInfo\<close> list, the two views, the progress sink, and (for the properties of the
  blocks) the local \<open>cmpInfo.diffBlocks\<close> as it is when the function returns.
\<close>

record compare_run =
  cr_result :: CompareResult
  cr_alignmentInfo :: "AlignmentPair list"
  cr_npp :: nppData
  cr_progress :: "progress_t option"
  cr_diffBlocks :: "diff_info list"

text \<open>The workaround for a difference at the very beginning: a blank line is inserted
  at the start of both documents and both section offsets are incremented.\<close>

definition insertBlankLine :: "bool \<Rightarrow> sci_view \<Rightarrow> sci_view" where
  "insertBlankLine docModified v =
     (if \<not> docModified then SCI_SETSAVEPOINT (SCI_INSERTTEXT_newline v)
      else SCI_INSERTTEXT_newline v)"

definition insertBlankLines :: "nppData \<Rightarrow> DocCmpInfo \<Rightarrow> DocCmpInfo \<Rightarrow> nppData" where
  "insertBlankLines npp doc1 doc2 =
     (let doc1Modified = SCI_GETMODIFY (getView npp (doc_view doc1));
          doc2Modified = SCI_GETMODIFY (getView npp (doc_view doc2));
          npp1 = setView npp (doc_view doc1)
                   (insertBlankLine doc1Modified (getView npp (doc_view doc1)))
      in setView npp1 (doc_view doc2)
           (insertBlankLine doc2Modified (getView npp1 (doc_view doc2))))"

definition needsBlankLines :: "diff_info list \<Rightarrow> DocCmpInfo \<Rightarrow> DocCmpInfo \<Rightarrow> bool" where
  "needsBlankLines diffBlocks doc1 doc2 =
     (d_type (hd diffBlocks) \<noteq> DIFF_MATCH \<and>
      (s_off (doc_section doc1) = 0 \<or> s_off (doc_section doc2) = 0))"

definition incSectionOff :: "DocCmpInfo \<Rightarrow> DocCmpInfo" where
  "incSectionOff doc = doc\<lparr>doc_section := (doc_section doc)\<lparr>s_off := s_off (doc_section doc) + 1\<rparr>\<rparr>"

definition shiftBlock :: "int \<Rightarrow> int \<Rightarrow> diff_info \<Rightarrow> diff_info" where
  "shiftBlock off1 off2 bd =
     (if d_type bd = DIFF_IN_1 \<or> d_type bd = DIFF_MATCH then bd\<lparr>d_off := d_off bd + off1\<rparr>
      else if d_type bd = DIFF_IN_2 then bd\<lparr>d_off := d_off bd + off2\<rparr>
      else bd)"

definition shiftBlocks :: "DocCmpInfo \<Rightarrow> DocCmpInfo \<Rightarrow> diff_info list \<Rightarrow> diff_info list" where
  "shiftBlocks doc1 doc2 diffBlocks =
     (if s_off (doc_section doc1) \<noteq> 0 \<or> s_off (doc_section doc2) \<noteq> 0
      then map (shiftBlock (s_off (doc_section doc1)) (s_off (doc_section doc2))) diffBlocks
      else diffBlocks)"

text \<open>The test of the "do block compares" loop: block \<open>i\<close> is \<open>DIFF_IN_2\<close>, it is not
  the first block, and block \<open>i - 1\<close> is \<open>DIFF_IN_1\<close>.\<close>

definition pairsAt :: "diff_info list \<Rightarrow> nat \<Rightarrow> bool" where
  "pairsAt diffBlocks i =
     (d_type (diffBlocks ! i) = DIFF_IN_2 \<and> i > 0 \<and> d_type (diffBlocks ! (i - 1)) = DIFF_IN_1)"

text \<open>One iteration of that loop, without the progress query.\<close>

definition blockCompare ::
  "Word diffcalc \<Rightarrow> nppData \<Rightarrow> DocCmpInfo \<Rightarrow> DocCmpInfo \<Rightarrow> UserSettings \<Rightarrow> nat
     \<Rightarrow> diff_info list \<Rightarrow> diff_info list option" where
  "blockCompare dcW npp doc1 doc2 settings i diffBlocks =
     (if pairsAt diffBlocks i
      then do {
        r \<leftarrow> compareBlocks dcW npp doc1 doc2 settings
               ((diffBlocks ! (i - 1))\<lparr>matchedDiff := Some i\<rparr>)
               ((diffBlocks ! i)\<lparr>matchedDiff := Some (i - 1)\<rparr>);
        Some (diffBlocks[i - 1 := cb_blockDiff1 r, i := cb_blockDiff2 r])
      }
      else Some diffBlocks)"

text \<open>The loop over the blocks still to visit; the boolean tells that the sink has
  answered "cancelled".\<close>

fun blockCompares ::
  "Word diffcalc \<Rightarrow> nppData \<Rightarrow> DocCmpInfo \<Rightarrow> DocCmpInfo \<Rightarrow> UserSettings \<Rightarrow> nat list
     \<Rightarrow> diff_info list \<Rightarrow> progress_t option
     \<Rightarrow> (bool \<times> diff_info list \<times> progress_t option) option" where
  "blockCompares dcW npp doc1 doc2 settings [] diffBlocks pr = Some (False, diffBlocks, pr)"
| "blockCompares dcW npp doc1 doc2 settings (i # rest) diffBlocks pr =
     do {
       diffBlocks' \<leftarrow> blockCompare dcW npp doc1 doc2 settings i diffBlocks;
       if fst (advance_chk pr) then Some (True, diffBlocks', snd (advance_chk pr))
       else blockCompares dcW npp doc1 doc2 settings rest diffBlocks' (snd (advance_chk pr))
     }"

definition cancelledRun ::
  "AlignmentPair list \<Rightarrow> nppData \<Rightarrow> progress_t option \<Rightarrow> diff_info list \<Rightarrow> compare_run" where
  "cancelledRun alignmentInfo npp pr diffBlocks =
     \<lparr>cr_result = COMPARE_CANCELLED, cr_alignmentInfo = alignmentInfo, cr_npp = npp,
      cr_progress = pr, cr_diffBlocks = diffBlocks\<rparr>"

text \<open>\<open>runCompare\<close> once the diff blocks are there and not empty.\<close>

definition runCompare_blocks ::
  "Word diffcalc \<Rightarrow> nppData \<Rightarrow> progress_t option \<Rightarrow> DocCmpInfo \<Rightarrow> DocCmpInfo \<Rightarrow> UserSettings
     \<Rightarrow> AlignmentPair list \<Rightarrow> diff_info list \<Rightarrow> compare_run option" where
  "runCompare_blocks dcW npp pr doc1 doc2 settings alignmentInfo diffBlocks0 =
     (let blank = needsBlankLines diffBlocks0 doc1 doc2;
          npp1 = (if blank then insertBlankLines npp doc1 doc2 else npp);
          doc1' = (if blank then incSectionOff doc1 else doc1);
          doc2' = (if blank then incSectionOff doc2 else doc2);
          diffBlocks1 = shiftBlocks doc1' doc2' diffBlocks0;
          chk1 = nextPhase_chk pr
      in if fst chk1 then Some (cancelledRun alignmentInfo npp1 (snd chk1) diffBlocks1)
         else do {
           bc \<leftarrow> blockCompares dcW npp1 doc1' doc2' settings [0..<length diffBlocks1]
                   diffBlocks1 (snd chk1);
           if fst bc
           then Some (cancelledRun alignmentInfo npp1 (snd (snd bc)) (fst (snd bc)))
           else if fst (nextPhase_chk (snd (snd bc)))
           then Some (cancelledRun alignmentInfo npp1 (snd (nextPhase_chk (snd (snd bc))))
                        (fst (snd bc)))
           else do {
             m \<leftarrow> markAllDiffs npp1 (snd (nextPhase_chk (snd (snd bc)))) doc1' doc2'
                    (fst (snd bc));
             Some \<lparr>cr_result = (if fst m then COMPARE_MISMATCH else COMPARE_CANCELLED),
                   cr_alignmentInfo = ms_alignmentInfo (snd m), cr_npp = ms_npp (snd m),
                   cr_progress = ms_progress (snd m), cr_diffBlocks = fst (snd bc)\<rparr>
           }
         })"

text \<open>\<open>runCompare\<close> once both hash vectors are there.\<close>

definition runCompare_diff ::
  "(detect_moves_type \<Rightarrow> u32 diffcalc) \<Rightarrow> Word diffcalc \<Rightarrow> nppData \<Rightarrow> progress_t option
     \<Rightarrow> u32 list \<Rightarrow> u32 list \<Rightarrow> DocCmpInfo \<Rightarrow> DocCmpInfo \<Rightarrow> UserSettings
     \<Rightarrow> AlignmentPair list \<Rightarrow> compare_run option" where
  "runCompare_diff dcL dcW npp pr doc1LineHashes doc2LineHashes doc1 doc2 settings alignmentInfo =
     (let swapped = (length doc1LineHashes > length doc2LineHashes);
          pLineHashes1 = (if swapped then doc2LineHashes else doc1LineHashes);
          pLineHashes2 = (if swapped then doc1LineHashes else doc2LineHashes);
          cdoc1 = (if swapped then doc2 else doc1);
          cdoc2 = (if swapped then doc1 else doc2);
          detectMoves = (if \<not> DetectMoves settings then DONT_DETECT
                         else if DetectMovesLineMode settings then ELEMENT_BASED
                         else BLOCK_BASED);
          diffBlocks = dcL detectMoves pLineHashes1 pLineHashes2
      in if diffBlocks = []
         then Some \<lparr>cr_result = COMPARE_MATCH, cr_alignmentInfo = alignmentInfo, cr_npp = npp,
                    cr_progress = pr, cr_diffBlocks = []\<rparr>
         else runCompare_blocks dcW npp pr cdoc1 cdoc2 settings alignmentInfo diffBlocks)"

definition runCompare ::
  "(detect_moves_type \<Rightarrow> u32 diffcalc) \<Rightarrow> Word diffcalc \<Rightarrow> nppData \<Rightarrow> progress_t option
     \<Rightarrow> section_t \<Rightarrow> section_t \<Rightarrow> UserSettings \<Rightarrow> AlignmentPair list
     \<Rightarrow> compare_run option" where
  "runCompare dcL dcW npp progress mainViewSection subViewSection settings alignmentInfo =
     do {
       h1 \<leftarrow> computeLineHashes npp progress
               \<lparr>doc_view = scintillaMainHandle, doc_section = mainViewSection,
                blockDiffMask = (if OldFileViewId settings = MAIN_VIEW
                                 then MARKER_MASK_REMOVED else MARKER_MASK_ADDED)\<rparr> settings;
       if fst (advance_chk (snd (snd h1)))
       then Some (cancelledRun alignmentInfo npp (snd (advance_chk (snd (snd h1)))) [])
       else do {
         h2 \<leftarrow> computeLineHashes npp (snd (advance_chk (snd (snd h1))))
                 \<lparr>doc_view = scintillaSecondHandle, doc_section = subViewSection,
                  blockDiffMask = (if OldFileViewId settings = MAIN_VIEW
                                   then MARKER_MASK_ADDED else MARKER_MASK_REMOVED)\<rparr> settings;
         if fst (advance_chk (snd (snd h2)))
         then Some (cancelledRun alignmentInfo npp (snd (advance_chk (snd (snd h2)))) [])
         else runCompare_diff dcL dcW npp (snd (advance_chk (snd (snd h2))))
                (fst h1) (fst h2) (fst (snd h1)) (fst (snd h2)) settings alignmentInfo
       }
     }"

section \<open>Properties of the engine\<close>

subsection \<open>Predicates and concrete documents\<close>

definition coversRun :: "Word list \<Rightarrow> diff_info \<Rightarrow> section_t \<Rightarrow> bool" where
  "coversRun ws ld change =
     (case nth_opt ws (d_off ld) of
        None \<Rightarrow> False
      | Some first \<Rightarrow>
          (case nth_opt ws (d_off ld + d_len ld - 1) of
             None \<Rightarrow> False
           | Some final \<Rightarrow>
               s_off change = w_pos first \<and>
               s_off change + s_len change = w_pos final + w_length final))"

definition runsOf :: "diff_type \<Rightarrow> diff_info list \<Rightarrow> diff_info list" where
  "runsOf t lineDiff = filter (\<lambda>ld. d_type ld = t) lineDiff"

definition lineWordsAt :: "chunk_info \<Rightarrow> int \<Rightarrow> Word list option" where
  "lineWordsAt chunk ln =
     do {
       s \<leftarrow> nth_opt (lineStartWordIdx chunk) ln;
       e \<leftarrow> nth_opt (lineEndWordIdx chunk) ln;
       slice_opt (words chunk) s e
     }"

definition runsOfFirst :: "Word diffcalc \<Rightarrow> Word list \<Rightarrow> Word list \<Rightarrow> diff_info list" where
  "runsOfFirst dcW words1 words2 =
     (if length words1 > length words2 then runsOf DIFF_IN_2 (dcW words2 words1)
      else runsOf DIFF_IN_1 (dcW words1 words2))"

definition runsOfSecond :: "Word diffcalc \<Rightarrow> Word list \<Rightarrow> Word list \<Rightarrow> diff_info list" where
  "runsOfSecond dcW words1 words2 =
     (if length words1 > length words2 then runsOf DIFF_IN_1 (dcW words2 words1)
      else runsOf DIFF_IN_2 (dcW words1 words2))"

definition lineDiffOf :: "Word diffcalc \<Rightarrow> Word list \<Rightarrow> Word list \<Rightarrow> diff_info list" where
  "lineDiffOf dcW words1 words2 =
     (if length words1 > length words2 then dcW words2 words1 else dcW words1 words2)"

definition mappedPair :: "chunk_info \<Rightarrow> diff_line \<Rightarrow> diff_line \<Rightarrow> bool" where
  "mappedPair pChunk1 e1 e2 =
     (nth_opt (lineMappings pChunk1) (dl_line e1) = Some (dl_line e2) \<and> dl_line e2 \<noteq> - 1)"

definition sameButChangedLines :: "diff_info \<Rightarrow> diff_info \<Rightarrow> bool" where
  "sameButChangedLines bd bd' = (bd' = bd\<lparr>changedLines := changedLines bd'\<rparr>)"

text \<open>The blocks \<open>*pBlockDiff1\<close> and \<open>*pBlockDiff2\<close> of a finished \<open>compareBlocks\<close>.\<close>

definition cb_pBlockDiff1 :: "cmp_blocks \<Rightarrow> diff_info" where
  "cb_pBlockDiff1 r = (if cb_swapped r then cb_blockDiff2 r else cb_blockDiff1 r)"

definition cb_pBlockDiff2 :: "cmp_blocks \<Rightarrow> diff_info" where
  "cb_pBlockDiff2 r = (if cb_swapped r then cb_blockDiff1 r else cb_blockDiff2 r)"

text \<open>Line \<open>line1\<close> of the first chunk is mapped and the word diff of its pair is not empty.\<close>

definition changedLine :: "Word diffcalc \<Rightarrow> chunk_info \<Rightarrow> chunk_info \<Rightarrow> int \<Rightarrow> bool" where
  "changedLine dcW chunk1 chunk2 line1 =
     (case nth_opt (lineMappings chunk1) line1 of
        None \<Rightarrow> False
      | Some line2 \<Rightarrow>
          line2 \<noteq> - 1 \<and>
          (case lineWordsAt chunk1 line1 of
             None \<Rightarrow> False
           | Some words1 \<Rightarrow>
               (case lineWordsAt chunk2 line2 of
                  None \<Rightarrow> False
                | Some words2 \<Rightarrow> lineDiffOf dcW words1 words2 \<noteq> [])))"

text \<open>Two changed-line entries are the two sides of one mapped pair with a non-empty
  word diff, and hold one change for each run of that diff on their side.\<close>

definition changedPair ::
  "Word diffcalc \<Rightarrow> chunk_info \<Rightarrow> chunk_info \<Rightarrow> diff_line \<Rightarrow> diff_line \<Rightarrow> bool" where
  "changedPair dcW chunk1 chunk2 e1 e2 =
     (mappedPair chunk1 e1 e2 \<and>
      (case lineWordsAt chunk1 (dl_line e1) of
         None \<Rightarrow> False
       | Some words1 \<Rightarrow>
           (case lineWordsAt chunk2 (dl_line e2) of
              None \<Rightarrow> False
            | Some words2 \<Rightarrow>
                lineDiffOf dcW words1 words2 \<noteq> [] \<and>
                list_all2 (coversRun words1) (runsOfFirst dcW words1 words2) (dl_changes e1) \<and>
                list_all2 (coversRun words2) (runsOfSecond dcW words1 words2) (dl_changes e2))))"

definition docLines :: "nppData \<Rightarrow> string list \<times> string list" where
  "docLines npp = (sci_lines (mainView npp), sci_lines (secondView npp))"

text \<open>Blocks below \<open>k\<close> have been visited: every pair reference set so far is reciprocal,
  links a \<open>DIFF_IN_1\<close> block to the \<open>DIFF_IN_2\<close> block right behind it, and lies below \<open>k\<close>.\<close>

definition pairedWith :: "diff_info list \<Rightarrow> nat \<Rightarrow> nat \<Rightarrow> bool" where
  "pairedWith bs i j =
     (j < length bs \<and> matchedDiff (bs ! j) = Some i \<and>
      (d_type (bs ! i) = DIFF_IN_1 \<and> d_type (bs ! j) = DIFF_IN_2 \<and> j = Suc i \<or>
       d_type (bs ! i) = DIFF_IN_2 \<and> d_type (bs ! j) = DIFF_IN_1 \<and> i = Suc j))"

definition pairsBelow :: "nat \<Rightarrow> diff_info list \<Rightarrow> bool" where
  "pairsBelow k bs =
     (\<forall>i<length bs. \<forall>j. matchedDiff (bs ! i) = Some j \<longrightarrow> pairedWith bs i j \<and> i < k \<and> j < k)"

definition withBlankLines :: "string list \<times> string list \<Rightarrow> string list \<times> string list" where
  "withBlankLines ls = ([] # fst ls, [] # snd ls)"

definition freshBlocks :: "(detect_moves_type \<Rightarrow> u32 diffcalc) \<Rightarrow> bool" where
  "freshBlocks dcL = (\<forall>d a b. \<forall>bd\<in>set (dcL d a b). matchedDiff bd = None)"

definition reciprocalPairs :: "diff_info list \<Rightarrow> bool" where
  "reciprocalPairs bs =
     (\<forall>i<length bs. \<forall>j. matchedDiff (bs ! i) = Some j \<longrightarrow> pairedWith bs i j)"

definition startsWithDiff :: "diff_info list \<Rightarrow> section_t \<Rightarrow> section_t \<Rightarrow> bool" where
  "startsWithDiff bs mainViewSection subViewSection =
     (bs \<noteq> [] \<and> d_type (hd bs) \<noteq> DIFF_MATCH \<and>
      (s_off mainViewSection = 0 \<or> s_off subViewSection = 0))"

text \<open>The line count \<open>computeLineHashes\<close> reads from a view.\<close>

definition docLineCount :: "sci_view \<Rightarrow> int" where
  "docLineCount v = (if SCI_GETLENGTH v \<noteq> 0 then SCI_GETLINECOUNT v else 0)"

text \<open>The two views hold the same lines and are compared over the same section.\<close>

definition identicalDocs :: "nppData \<Rightarrow> section_t \<Rightarrow> section_t \<Rightarrow> bool" where
  "identicalDocs npp mainViewSection subViewSection =
     (sci_lines (mainView npp) = sci_lines (secondView npp) \<and>
      mainViewSection = subViewSection)"

text \<open>The line diff engine reports equal sequences by the empty script.\<close>

definition silentOnEqual :: "(detect_moves_type \<Rightarrow> u32 diffcalc) \<Rightarrow> bool" where
  "silentOnEqual dcL = (\<forall>d h. dcL d h h = [])"

text \<open>There is no progress sink, or the user never cancels.\<close>

definition neverCancels :: "progress_t option \<Rightarrow> bool" where
  "neverCancels pr = (case pr of None \<Rightarrow> True | Some p \<Rightarrow> cancelAt p = None)"

text \<open>The section \<open>computeLineHashes\<close> settles on, and the hashes of its lines.\<close>

definition clampedSection :: "sci_view \<Rightarrow> section_t \<Rightarrow> section_t" where
  "clampedSection v sec =
     (if s_len sec \<le> 0 \<or> s_off sec + s_len sec > docLineCount v
      then sec\<lparr>s_len := docLineCount v - s_off sec\<rparr> else sec)"

definition sectionHashes :: "sci_view \<Rightarrow> UserSettings \<Rightarrow> section_t \<Rightarrow> u32 list" where
  "sectionHashes v settings sec =
     map (\<lambda>lineNum. lineHash settings (docLineText v (int lineNum + s_off (clampedSection v sec))))
       [0..<nat (s_len (clampedSection v sec))]"

text \<open>The convergence of a line pair as the selection loop computes it.\<close>

definition convergenceOf :: "int list list \<Rightarrow> int list \<Rightarrow> int \<Rightarrow> int \<Rightarrow> int option" where
  "convergenceOf lineWordsMatch line2Len line1 line2 =
     do {
       row \<leftarrow> nth_opt lineWordsMatch line1;
       m \<leftarrow> nth_opt row line2;
       l2 \<leftarrow> nth_opt line2Len line2;
       Some (c_div (m * 100) l2)
     }"

definition mappedTo :: "int list \<Rightarrow> int \<Rightarrow> int \<Rightarrow> bool" where
  "mappedTo ms l k = (nth_opt ms l = Some k \<and> k \<noteq> - 1)"

definition injectiveMapping :: "int list \<Rightarrow> bool" where
  "injectiveMapping ms = (\<forall>l l' k. mappedTo ms l k \<and> mappedTo ms l' k \<longrightarrow> l = l')"

text \<open>The invariant of the selection loop: every mapping recorded so far is mutual, lies
  below the cursor \<open>bestMatchingLine2\<close> and has a convergence of at least 50.\<close>

definition selected ::
  "int list list \<Rightarrow> int list \<Rightarrow> int list \<times> int list \<times> int \<Rightarrow> bool" where
  "selected M L st =
     ((\<forall>l k. mappedTo (fst st) l k \<longrightarrow>
          k < snd (snd st) \<and> nth_opt (fst (snd st)) k = Some l \<and>
          (\<exists>c\<ge>50. convergenceOf M L l k = Some c)) \<and>
      (\<forall>k l. mappedTo (fst (snd st)) k l \<longrightarrow>
          k < snd (snd st) \<and> nth_opt (fst st) l = Some k))"

definition pairConvergence :: "aligned \<Rightarrow> int \<Rightarrow> int \<Rightarrow> int option" where
  "pairConvergence a line1 line2 =
     do {
       lineWordsMatch \<leftarrow> lineWordsMatchAll a;
       row \<leftarrow> nth_opt lineWordsMatch line1;
       m \<leftarrow> nth_opt row line2;
       l2 \<leftarrow> line2LenOf (ac_pChunk2 a) line2;
       Some (c_div (m * 100) l2)
     }"

definition unmapped :: "int list \<Rightarrow> bool" where
  "unmapped ms = (\<forall>x\<in>set ms. x = - 1)"

text \<open>The value of \<open>bestMatchingLine2\<close> when the selection loop reaches \<open>line1\<close>.\<close>

definition cursorAt :: "aligned \<Rightarrow> diff_info \<Rightarrow> diff_info \<Rightarrow> int \<Rightarrow> int option" where
  "cursorAt a pBlockDiff1 pBlockDiff2 line1 =
     do {
       line2Len \<leftarrow> line2LenAll a;
       lineWordsMatch \<leftarrow> lineWordsMatchAll a;
       st \<leftarrow> selectLines lineWordsMatch line2Len pBlockDiff1 pBlockDiff2
               (lineCount (ac_pChunk2 a)) [0..line1 - 1]
               (lineMappings (ac_pChunk1 a), lineMappings (ac_pChunk2 a), 0);
       Some (snd (snd st))
     }"

text \<open>No line of the second chunk from \<open>cur\<close> on that is not moved has a convergence with
  \<open>line1\<close> above \<open>c\<close>.\<close>

definition bestFrom :: "aligned \<Rightarrow> diff_info \<Rightarrow> int \<Rightarrow> int \<Rightarrow> int \<Rightarrow> bool" where
  "bestFrom a pBlockDiff2 cur line1 c =
     list_all (\<lambda>line2. isMoved pBlockDiff2 line2 \<noteq> NOT_MOVED \<or>
                 (case pairConvergence a line1 line2 of None \<Rightarrow> True | Some c' \<Rightarrow> c' \<le> c))
       [cur..lineCount (ac_pChunk2 a) - 1]"

text \<open>What the probe loop knows about the best offset so far, and how it may end.\<close>

definition bestSoFar ::
  "Word diffcalc \<Rightarrow> chunk_info \<Rightarrow> chunk_info \<Rightarrow> int \<Rightarrow> int \<Rightarrow> int \<Rightarrow> int \<Rightarrow> bool" where
  "bestSoFar dcW s l endLine ln best bestOff =
     (bestOff = - 1 \<and> best = 0 \<and> ln = 0 \<or>
      0 \<le> bestOff \<and> bestOff \<le> endLine \<and> 0 < best \<and> probeCount dcW s l bestOff = Some best)"

definition probedOffset ::
  "Word diffcalc \<Rightarrow> chunk_info \<Rightarrow> chunk_info \<Rightarrow> int \<Rightarrow> probe_exit \<Rightarrow> bool" where
  "probedOffset dcW s l endLine e =
     (case e of
        Offset k \<Rightarrow> 0 \<le> k \<and> k \<le> endLine \<and>
                    (k = 0 \<or> (case probeCount dcW s l k of None \<Rightarrow> False | Some m \<Rightarrow> 0 < m))
      | OutOfBounds ln \<Rightarrow> probeCount dcW s l ln = None)"

definition probeMeasure :: "int \<Rightarrow> ((int \<times> int \<times> int) \<times> (int \<times> int \<times> int)) set" where
  "probeMeasure endLine =
     measures [\<lambda>(step, ln, bestOff). nat step,
               \<lambda>(step, ln, bestOff). if bestOff = ln - 1 then 0 else 1,
               \<lambda>(step, ln, bestOff). if bestOff = ln - 1 then nat (endLine + 1 - ln)
                                      else nat (ln + 1)]"

text \<open>Plain settings, fresh views, whole-document sections, and the run of
  \<open>runCompare\<close> on two documents given by their lines; \<open>cancel = Some k\<close> makes the
  progress sink answer "cancelled" from its query number \<open>k\<close> on.\<close>

definition settings0 :: UserSettings where
  "settings0 = \<lparr>IgnoreCase = False, IgnoreSpaces = False, DetectMoves = False,
                 DetectMovesLineMode = False, OldFileViewId = MAIN_VIEW\<rparr>"

definition view_of :: "string list \<Rightarrow> sci_view" where
  "view_of ls = \<lparr>sci_lines = ls, sci_markers = [], sci_changed = [], sci_modified = False\<rparr>"

definition npp_of :: "string list \<Rightarrow> string list \<Rightarrow> nppData" where
  "npp_of ls1 ls2 = \<lparr>mainView = view_of ls1, secondView = view_of ls2\<rparr>"

definition wholeDoc :: section_t where
  "wholeDoc = \<lparr>s_off = 0, s_len = 0\<rparr>"

definition doc_of :: "HWND \<Rightarrow> int \<Rightarrow> marker_mask \<Rightarrow> DocCmpInfo" where
  "doc_of h n m = \<lparr>doc_view = h, doc_section = \<lparr>s_off = 0, s_len = n\<rparr>, blockDiffMask = m\<rparr>"

text \<open>
  Modelled from the spec: a second reading of the absent DiffCalc.  The orchestrator has
  "zero diff blocks => MATCH", and "an empty word-diff result means the lines are
  identical": this engine reports equal sequences by the empty script and is the engine
  above on all other inputs.
\<close>

definition DiffCalc_lines_silent :: "detect_moves_type \<Rightarrow> u32 diffcalc" where
  "DiffCalc_lines_silent d a b = (if a = b then [] else DiffCalc (=) a b)"

definition run_docs ::
  "(detect_moves_type \<Rightarrow> u32 diffcalc) \<Rightarrow> string list \<Rightarrow> string list \<Rightarrow> nat option
     \<Rightarrow> compare_run option" where
  "run_docs dcL ls1 ls2 cancel =
     runCompare dcL DiffCalc_words (npp_of ls1 ls2)
       (case cancel of None \<Rightarrow> None | Some k \<Rightarrow> Some \<lparr>polls = 0, cancelAt = Some k\<rparr>)
       wholeDoc wholeDoc settings0 []"

text \<open>Views on the outcome of a run.\<close>

definition blocksOf :: "compare_run \<Rightarrow> (diff_type \<times> int \<times> int) list" where
  "blocksOf r = map (\<lambda>bd. (d_type bd, d_off bd, d_len bd)) (cr_diffBlocks r)"

definition resultAndBlocks :: "compare_run option \<Rightarrow> (CompareResult \<times> (diff_type \<times> int \<times> int) list) option" where
  "resultAndBlocks run = map_option (\<lambda>r. (cr_result r, blocksOf r)) run"

definition leftBehind ::
  "compare_run option \<Rightarrow> (CompareResult \<times> nat \<times> (int \<times> marker_mask) list \<times> (int \<times> marker_mask) list) option" where
  "leftBehind run =
     map_option (\<lambda>r. (cr_result r, length (cr_alignmentInfo r),
                      sci_markers (mainView (cr_npp r)), sci_markers (secondView (cr_npp r)))) run"

definition linesAfter :: "compare_run option \<Rightarrow> (string list \<times> string list) option" where
  "linesAfter run = map_option (\<lambda>r. docLines (cr_npp r)) run"

text \<open>The documents and blocks as \<open>runCompare\<close> hands them to \<open>compareBlocks\<close>, the
  chunk of a document, and the outcomes of some runs (each is shown to exist below).\<close>

definition docMain :: "int \<Rightarrow> DocCmpInfo" where
  "docMain n = doc_of scintillaMainHandle n MARKER_MASK_REMOVED"

definition docSecond :: "int \<Rightarrow> DocCmpInfo" where
  "docSecond n = doc_of scintillaSecondHandle n MARKER_MASK_ADDED"

definition block1 :: "int \<Rightarrow> diff_info" where
  "block1 n = (new_diff_info DIFF_IN_1 0 n)\<lparr>matchedDiff := Some 1\<rparr>"

definition block2 :: "int \<Rightarrow> diff_info" where
  "block2 n = (new_diff_info DIFF_IN_2 0 n)\<lparr>matchedDiff := Some 0\<rparr>"

definition chunk_of :: "string list \<Rightarrow> chunk_info" where
  "chunk_of ls =
     the (do { c \<leftarrow> new_chunk_info 0 (int (length ls)); getWords (view_of ls) settings0 c })"

definition foo_blocks :: cmp_blocks where
  "foo_blocks = the (compareBlocks DiffCalc_words (npp_of [''foo bar''] [''foo baz''])
                       (docMain 1) (docSecond 1) settings0 (block1 1) (block2 1))"

definition ab_aligned :: aligned where
  "ab_aligned = the (alignChunks DiffCalc_words (npp_of [''a b''] [''a'', ''b''])
                       (docMain 1) (docSecond 2) settings0 (block1 1) (block2 2))"

definition ab_chunks :: "chunk_info \<times> chunk_info" where
  "ab_chunks = the (matchLines ab_aligned (block2 2) (block1 1))"

definition ab_blocks :: cmp_blocks where
  "ab_blocks = the (compareBlocks DiffCalc_words (npp_of [''a b''] [''a'', ''b''])
                       (docMain 1) (docSecond 2) settings0 (block1 1) (block2 2))"

definition far_lines :: "string list" where
  "far_lines = ''x y'' # replicate 16 ''x''"

definition foo_run :: compare_run where
  "foo_run = the (runCompare DiffCalc_lines DiffCalc_words (npp_of [''foo bar''] [''foo baz''])
                    None wholeDoc wholeDoc settings0 [])"

definition foo_cancelled_run :: compare_run where
  "foo_cancelled_run =
     the (runCompare DiffCalc_lines DiffCalc_words (npp_of [''foo bar''] [''foo baz''])
            (Some \<lparr>polls = 0, cancelAt = Some 8\<rparr>) wholeDoc wholeDoc settings0 [])"

text \<open>More documents: a block pair where a line has two candidates, one with three lines
  of which the middle ones have nothing in common, two identical documents compared by the
  silent engine under a sink that never cancels, and a long block for the locator.\<close>

definition pick_aligned :: aligned where
  "pick_aligned = the (alignChunks DiffCalc_words
                         (npp_of [''a b c d'', ''k m''] [''a x'', ''b c d'', ''k n''])
                         (docMain 2) (docSecond 3) settings0 (block1 2) (block2 3))"

definition pick_chunks :: "chunk_info \<times> chunk_info" where
  "pick_chunks = the (matchLines pick_aligned (block1 2) (block2 3))"

definition trio_blocks :: cmp_blocks where
  "trio_blocks = the (compareBlocks DiffCalc_words
                        (npp_of [''foo bar'', ''zzz'', ''k m''] [''foo baz'', ''yyy'', ''k n''])
                        (docMain 3) (docSecond 3) settings0 (block1 3) (block2 3))"

definition same_run :: compare_run where
  "same_run = the (runCompare DiffCalc_lines_silent DiffCalc_words
                     (npp_of [''a'', ''b''] [''a'', ''b''])
                     (Some \<lparr>polls = 0, cancelAt = None\<rparr>) wholeDoc wholeDoc settings0 [])"

definition near_lines :: "string list" where
  "near_lines = [''a b .'', ''c .'']"

definition long_lines :: "string list" where
  "long_lines = ''a b'' # replicate 18 ''c''"

definition ab_run :: compare_run where
  "ab_run = the (runCompare DiffCalc_lines DiffCalc_words (npp_of [''a''] [''b''])
                    None wholeDoc wholeDoc settings0 [])"

subsection \<open>Line comparator: the changes of one line pair\<close>

lemma wordSpan_covers: "wordSpan ws ld = Some ch \<Longrightarrow> coversRun ws ld ch"
  by (auto simp: wordSpan_def coversRun_def split: Option.bind_splits)

lemma lineChanges_runs:
  "lineChanges w1 w2 lds cs = Some cs' \<Longrightarrow>
   \<exists>n1 n2. fst cs' = fst cs @ n1 \<and> snd cs' = snd cs @ n2 \<and>
           list_all2 (coversRun w1) (runsOf DIFF_IN_1 lds) n1 \<and>
           list_all2 (coversRun w2) (runsOf DIFF_IN_2 lds) n2"
proof (induction lds arbitrary: cs)
  case Nil
  then show ?case by (simp add: runsOf_def)
next
  case (Cons ld lds)
  show ?case
  proof (cases "d_type ld")
    case DIFF_MATCH
    with Cons show ?thesis by (simp add: runsOf_def)
  next
    case DIFF_IN_1
    with Cons.prems obtain ch where ch: "wordSpan w1 ld = Some ch"
      and rec: "lineChanges w1 w2 lds (fst cs @ [ch], snd cs) = Some cs'"
      by (auto split: Option.bind_splits)
    from Cons.IH [OF rec] obtain n1 n2 where
      "fst cs' = (fst cs @ [ch]) @ n1" "snd cs' = snd cs @ n2"
      "list_all2 (coversRun w1) (runsOf DIFF_IN_1 lds) n1"
      "list_all2 (coversRun w2) (runsOf DIFF_IN_2 lds) n2" by auto
    with DIFF_IN_1 wordSpan_covers [OF ch] show ?thesis
      by (intro exI [of _ "ch # n1"] exI [of _ n2]) (simp add: runsOf_def)
  next
    case DIFF_IN_2
    with Cons.prems obtain ch where ch: "wordSpan w2 ld = Some ch"
      and rec: "lineChanges w1 w2 lds (fst cs, snd cs @ [ch]) = Some cs'"
      by (auto split: Option.bind_splits)
    from Cons.IH [OF rec] obtain n1 n2 where
      "fst cs' = fst cs @ n1" "snd cs' = (snd cs @ [ch]) @ n2"
      "list_all2 (coversRun w1) (runsOf DIFF_IN_1 lds) n1"
      "list_all2 (coversRun w2) (runsOf DIFF_IN_2 lds) n2" by auto
    with DIFF_IN_2 wordSpan_covers [OF ch] show ?thesis
      by (intro exI [of _ n1] exI [of _ "ch # n2"]) (simp add: runsOf_def)
  qed
qed

text \<open>The outcome of one mapped line pair, in terms of the pair's own word lists.\<close>

lemma compareLines_line_mapped:
  assumes run: "compareLines_line dcW chunk1 chunk2 line1 bds = Some bds'"
    and map: "nth_opt (lineMappings chunk1) line1 = Some line2" "line2 \<noteq> - 1"
    and w1: "lineWordsAt chunk1 line1 = Some words1"
    and w2: "lineWordsAt chunk2 line2 = Some words2"
    and sw: "swapped = (length words1 > length words2)"
    and ld: "lineDiff = dcW (if swapped then words2 else words1) (if swapped then words1 else words2)"
  shows "(lineDiff = [] \<longrightarrow> bds' = bds) \<and>
         (lineDiff \<noteq> [] \<longrightarrow>
            (\<exists>cs1 cs2.
               fst bds' = add_changedLine (fst bds) line1 cs1 \<and>
               snd bds' = add_changedLine (snd bds) line2 cs2 \<and>
               list_all2 (coversRun words1) (runsOf (if swapped then DIFF_IN_2 else DIFF_IN_1) lineDiff) cs1 \<and>
               list_all2 (coversRun words2) (runsOf (if swapped then DIFF_IN_1 else DIFF_IN_2) lineDiff) cs2))"
proof (cases "lineDiff = []")
  case True
  with run map w1 w2 sw ld show ?thesis
    by (auto simp: compareLines_line_def lineWordsAt_def Let_def split: Option.bind_splits if_splits)
next
  case False
  from run map w1 w2 sw ld False obtain cs where
    cs: "lineChanges (if swapped then words2 else words1) (if swapped then words1 else words2) lineDiff ([], []) = Some cs"
    and res: "bds' = (if swapped
                then (add_changedLine (fst bds) line1 (snd cs), add_changedLine (snd bds) line2 (fst cs))
                else (add_changedLine (fst bds) line1 (fst cs), add_changedLine (snd bds) line2 (snd cs)))"
    by (auto simp: compareLines_line_def lineWordsAt_def Let_def split: Option.bind_splits if_splits)
  from lineChanges_runs [OF cs] have
    "list_all2 (coversRun (if swapped then words2 else words1)) (runsOf DIFF_IN_1 lineDiff) (fst cs)"
    "list_all2 (coversRun (if swapped then words1 else words2)) (runsOf DIFF_IN_2 lineDiff) (snd cs)"
    by auto
  with res False show ?thesis by (cases swapped) auto
qed

text \<open>One pass of the loop body for a mapped line, in terms of the word diff of the pair.\<close>

lemma compareLines_line_entry:
  assumes "compareLines_line dcW chunk1 chunk2 line1 bds = Some bds'"
    and "nth_opt (lineMappings chunk1) line1 = Some line2" and "line2 \<noteq> - 1"
  shows "\<exists>words1 words2.
           lineWordsAt chunk1 line1 = Some words1 \<and> lineWordsAt chunk2 line2 = Some words2 \<and>
           (if lineDiffOf dcW words1 words2 = [] then bds' = bds
            else \<exists>cs1 cs2.
                   fst bds' = add_changedLine (fst bds) line1 cs1 \<and>
                   snd bds' = add_changedLine (snd bds) line2 cs2 \<and>
                   list_all2 (coversRun words1) (runsOfFirst dcW words1 words2) cs1 \<and>
                   list_all2 (coversRun words2) (runsOfSecond dcW words1 words2) cs2)"
proof -
  from assms obtain words1 words2 where
    w: "lineWordsAt chunk1 line1 = Some words1" "lineWordsAt chunk2 line2 = Some words2"
    by (auto simp: compareLines_line_def lineWordsAt_def split: Option.bind_splits if_splits)
  note m = compareLines_line_mapped [OF assms w refl refl]
  have "if lineDiffOf dcW words1 words2 = [] then bds' = bds
        else \<exists>cs1 cs2.
               fst bds' = add_changedLine (fst bds) line1 cs1 \<and>
               snd bds' = add_changedLine (snd bds) line2 cs2 \<and>
               list_all2 (coversRun words1) (runsOfFirst dcW words1 words2) cs1 \<and>
               list_all2 (coversRun words2) (runsOfSecond dcW words1 words2) cs2"
  proof (cases "length words1 > length words2")
    case True
    with m show ?thesis by (simp add: lineDiffOf_def runsOfFirst_def runsOfSecond_def)
  next
    case False
    with m show ?thesis by (simp add: lineDiffOf_def runsOfFirst_def runsOfSecond_def)
  qed
  with w show ?thesis by blast
qed

subsection \<open>Line comparator: the changed-line lists of a block pair\<close>

lemma sameButChangedLines_refl [simp]: "sameButChangedLines bd bd"
  by (simp add: sameButChangedLines_def)

lemma sameButChangedLines_trans:
  "sameButChangedLines a b \<Longrightarrow> sameButChangedLines b c \<Longrightarrow> sameButChangedLines a c"
  by (cases a, cases b, cases c) (simp add: sameButChangedLines_def)

lemma sameButChangedLines_add [simp]: "sameButChangedLines bd (add_changedLine bd ln cs)"
  by (simp add: sameButChangedLines_def add_changedLine_def)

lemma sameButChangedLines_fields:
  "sameButChangedLines bd bd' \<Longrightarrow>
   d_type bd' = d_type bd \<and> d_off bd' = d_off bd \<and> d_len bd' = d_len bd \<and>
   matchedDiff bd' = matchedDiff bd \<and> lineMoves bd' = lineMoves bd"
  by (cases bd, cases bd') (simp add: sameButChangedLines_def)

lemma compareLines_line_appends:
  assumes "compareLines_line dcW chunk1 chunk2 line1 bds = Some bds'"
  shows "bds' = bds \<or>
         (\<exists>line2 cs1 cs2. nth_opt (lineMappings chunk1) line1 = Some line2 \<and> line2 \<noteq> - 1 \<and>
            fst bds' = add_changedLine (fst bds) line1 cs1 \<and>
            snd bds' = add_changedLine (snd bds) line2 cs2)"
  using assms
  by (auto simp: compareLines_line_def Let_def split: Option.bind_splits if_splits)

lemma compareLines_loop_appends:
  "compareLines_loop dcW chunk1 chunk2 ls bds = Some bds' \<Longrightarrow>
   \<exists>n1 n2. changedLines (fst bds') = changedLines (fst bds) @ n1 \<and>
           changedLines (snd bds') = changedLines (snd bds) @ n2 \<and>
           list_all2 (mappedPair chunk1) n1 n2 \<and>
           sameButChangedLines (fst bds) (fst bds') \<and> sameButChangedLines (snd bds) (snd bds')"
proof (induction ls arbitrary: bds)
  case Nil
  then show ?case by simp
next
  case (Cons line1 ls)
  from Cons.prems obtain mid where
    step: "compareLines_line dcW chunk1 chunk2 line1 bds = Some mid"
    and rest: "compareLines_loop dcW chunk1 chunk2 ls mid = Some bds'"
    by (auto split: Option.bind_splits)
  from Cons.IH [OF rest] obtain n1 n2 where IH:
    "changedLines (fst bds') = changedLines (fst mid) @ n1"
    "changedLines (snd bds') = changedLines (snd mid) @ n2"
    "list_all2 (mappedPair chunk1) n1 n2"
    "sameButChangedLines (fst mid) (fst bds')" "sameButChangedLines (snd mid) (snd bds')"
    by blast
  from compareLines_line_appends [OF step] show ?case
  proof
    assume "mid = bds"
    with IH show ?thesis by blast
  next
    assume "\<exists>line2 cs1 cs2. nth_opt (lineMappings chunk1) line1 = Some line2 \<and> line2 \<noteq> - 1 \<and>
            fst mid = add_changedLine (fst bds) line1 cs1 \<and>
            snd mid = add_changedLine (snd bds) line2 cs2"
    then obtain line2 cs1 cs2 where m: "nth_opt (lineMappings chunk1) line1 = Some line2"
      "line2 \<noteq> - 1" "fst mid = add_changedLine (fst bds) line1 cs1"
      "snd mid = add_changedLine (snd bds) line2 cs2" by blast
    let ?e1 = "\<lparr>dl_line = line1, dl_changes = cs1\<rparr>"
    let ?e2 = "\<lparr>dl_line = line2, dl_changes = cs2\<rparr>"
    have a: "changedLines (fst bds') = changedLines (fst bds) @ (?e1 # n1)"
      using IH(1) m(3) by (simp add: add_changedLine_def)
    have b: "changedLines (snd bds') = changedLines (snd bds) @ (?e2 # n2)"
      using IH(2) m(4) by (simp add: add_changedLine_def)
    have c: "list_all2 (mappedPair chunk1) (?e1 # n1) (?e2 # n2)"
      using IH(3) m(1,2) by (simp add: mappedPair_def)
    have d: "sameButChangedLines (fst bds) (fst bds')"
      using sameButChangedLines_trans [OF _ IH(4)] m(3) by simp
    have e: "sameButChangedLines (snd bds) (snd bds')"
      using sameButChangedLines_trans [OF _ IH(5)] m(4) by simp
    from a b c d e show ?thesis by blast
  qed
qed

lemma compareBlocks_appends:
  assumes "compareBlocks dcW npp doc1 doc2 settings blockDiff1 blockDiff2 = Some r"
  shows "\<exists>n1 n2.
           changedLines (cb_pBlockDiff1 r) =
             changedLines (if cb_swapped r then blockDiff2 else blockDiff1) @ n1 \<and>
           changedLines (cb_pBlockDiff2 r) =
             changedLines (if cb_swapped r then blockDiff1 else blockDiff2) @ n2 \<and>
           list_all2 (mappedPair (cb_pChunk1 r)) n1 n2 \<and>
           sameButChangedLines blockDiff1 (cb_blockDiff1 r) \<and>
           sameButChangedLines blockDiff2 (cb_blockDiff2 r)"
proof -
  from assms obtain a where a: "alignChunks dcW npp doc1 doc2 settings blockDiff1 blockDiff2 = Some a"
    by (auto simp: compareBlocks_def split: Option.bind_splits)
  show ?thesis
  proof (cases "ac_chunkDiff a = []")
    case True
    with assms a have "r = \<lparr>cb_result = False, cb_blockDiff1 = blockDiff1, cb_blockDiff2 = blockDiff2,
                  cb_pChunk1 = ac_pChunk1 a, cb_pChunk2 = ac_pChunk2 a,
                  cb_swapped = ac_swapped a\<rparr>"
      by (simp add: compareBlocks_def)
    then show ?thesis by (simp add: cb_pBlockDiff1_def cb_pBlockDiff2_def)
  next
    case False
    let ?p1 = "if ac_swapped a then blockDiff2 else blockDiff1"
    let ?p2 = "if ac_swapped a then blockDiff1 else blockDiff2"
    from assms a False obtain chunks bds where
      ch: "matchLines a ?p1 ?p2 = Some chunks"
      and cl: "compareLines dcW ?p1 ?p2 (fst chunks) (snd chunks) = Some bds"
      and r: "r = \<lparr>cb_result = True,
               cb_blockDiff1 = (if ac_swapped a then snd bds else fst bds),
               cb_blockDiff2 = (if ac_swapped a then fst bds else snd bds),
               cb_pChunk1 = fst chunks, cb_pChunk2 = snd chunks, cb_swapped = ac_swapped a\<rparr>"
      by (auto simp: compareBlocks_def split: Option.bind_splits)
    from cl have "compareLines_loop dcW (fst chunks) (snd chunks) [0..lineCount (fst chunks) - 1]
                    (?p1, ?p2) = Some bds"
      by (simp add: compareLines_def)
    from compareLines_loop_appends [OF this] obtain n1 n2 where
      "changedLines (fst bds) = changedLines ?p1 @ n1"
      "changedLines (snd bds) = changedLines ?p2 @ n2"
      "list_all2 (mappedPair (fst chunks)) n1 n2"
      "sameButChangedLines ?p1 (fst bds)" "sameButChangedLines ?p2 (snd bds)"
      by fastforce
    with r show ?thesis
      by (cases "ac_swapped a") (auto simp: cb_pBlockDiff1_def cb_pBlockDiff2_def)
  qed
qed

text \<open>
  Claim C10.  When \<open>compareBlocks\<close> returns for two blocks that came without changed lines,
  the changed-line lists of the two blocks have the same length, and the entries at the
  same index are the two lines of one mapped pair: the line of \<open>*pBlockDiff1\<close>'s entry is
  mapped to the line of \<open>*pBlockDiff2\<close>'s entry in the first chunk.
\<close>

theorem compareBlocks_changedLines_paired:
  assumes "compareBlocks dcW npp doc1 doc2 settings blockDiff1 blockDiff2 = Some r"
    and "changedLines blockDiff1 = []" and "changedLines blockDiff2 = []"
  shows "list_all2 (mappedPair (cb_pChunk1 r))
           (changedLines (cb_pBlockDiff1 r)) (changedLines (cb_pBlockDiff2 r)) \<and>
         length (changedLines (cb_blockDiff1 r)) = length (changedLines (cb_blockDiff2 r))"
proof -
  from compareBlocks_appends [OF assms(1)] assms(2,3)
  have *: "list_all2 (mappedPair (cb_pChunk1 r))
           (changedLines (cb_pBlockDiff1 r)) (changedLines (cb_pBlockDiff2 r))"
    by (auto split: if_splits)
  from list_all2_lengthD [OF *] show ?thesis using *
    by (auto simp: cb_pBlockDiff1_def cb_pBlockDiff2_def split: if_splits)
qed

subsection \<open>Line comparator: the whole loop\<close>

lemma compareLines_line_step:
  assumes run: "compareLines_line dcW chunk1 chunk2 line1 bds = Some mid"
  shows "(\<not> changedLine dcW chunk1 chunk2 line1 \<and> mid = bds) \<or>
         (changedLine dcW chunk1 chunk2 line1 \<and>
          (\<exists>e1 e2. dl_line e1 = line1 \<and> changedPair dcW chunk1 chunk2 e1 e2 \<and>
             changedLines (fst mid) = changedLines (fst bds) @ [e1] \<and>
             changedLines (snd mid) = changedLines (snd bds) @ [e2]))"
proof -
  from run obtain line2 where m: "nth_opt (lineMappings chunk1) line1 = Some line2"
    by (auto simp: compareLines_line_def split: Option.bind_splits)
  show ?thesis
  proof (cases "line2 = - 1")
    case True
    with run m have "mid = bds" by (simp add: compareLines_line_def)
    with True m show ?thesis by (simp add: changedLine_def)
  next
    case False
    from compareLines_line_entry [OF run m False] obtain words1 words2 where
      w: "lineWordsAt chunk1 line1 = Some words1" "lineWordsAt chunk2 line2 = Some words2"
      and r: "if lineDiffOf dcW words1 words2 = [] then mid = bds
              else \<exists>cs1 cs2.
                   fst mid = add_changedLine (fst bds) line1 cs1 \<and>
                   snd mid = add_changedLine (snd bds) line2 cs2 \<and>
                   list_all2 (coversRun words1) (runsOfFirst dcW words1 words2) cs1 \<and>
                   list_all2 (coversRun words2) (runsOfSecond dcW words1 words2) cs2"
      by blast
    show ?thesis
    proof (cases "lineDiffOf dcW words1 words2 = []")
      case True
      with r m w False show ?thesis by (simp add: changedLine_def)
    next
      case ne: False
      with r obtain cs1 cs2 where c:
        "fst mid = add_changedLine (fst bds) line1 cs1"
        "snd mid = add_changedLine (snd bds) line2 cs2"
        "list_all2 (coversRun words1) (runsOfFirst dcW words1 words2) cs1"
        "list_all2 (coversRun words2) (runsOfSecond dcW words1 words2) cs2"
        by auto
      let ?e1 = "\<lparr>dl_line = line1, dl_changes = cs1\<rparr>"
      let ?e2 = "\<lparr>dl_line = line2, dl_changes = cs2\<rparr>"
      have "changedLine dcW chunk1 chunk2 line1"
        using m w False ne by (simp add: changedLine_def)
      moreover have "changedPair dcW chunk1 chunk2 ?e1 ?e2"
        using m w False ne c(3,4) by (simp add: changedPair_def mappedPair_def)
      moreover have "changedLines (fst mid) = changedLines (fst bds) @ [?e1]"
        "changedLines (snd mid) = changedLines (snd bds) @ [?e2]"
        using c(1,2) by (simp_all add: add_changedLine_def)
      ultimately show ?thesis
        by (intro disjI2 conjI exI [of _ ?e1] exI [of _ ?e2]) simp_all
    qed
  qed
qed

lemma compareLines_loop_changes:
  "compareLines_loop dcW chunk1 chunk2 ls bds = Some bds' \<Longrightarrow>
   \<exists>n1 n2. changedLines (fst bds') = changedLines (fst bds) @ n1 \<and>
           changedLines (snd bds') = changedLines (snd bds) @ n2 \<and>
           map dl_line n1 = filter (changedLine dcW chunk1 chunk2) ls \<and>
           list_all2 (changedPair dcW chunk1 chunk2) n1 n2"
proof (induction ls arbitrary: bds)
  case Nil
  then show ?case by simp
next
  case (Cons line1 ls)
  from Cons.prems obtain mid where
    step: "compareLines_line dcW chunk1 chunk2 line1 bds = Some mid"
    and rest: "compareLines_loop dcW chunk1 chunk2 ls mid = Some bds'"
    by (auto split: Option.bind_splits)
  from Cons.IH [OF rest] obtain n1 n2 where IH:
    "changedLines (fst bds') = changedLines (fst mid) @ n1"
    "changedLines (snd bds') = changedLines (snd mid) @ n2"
    "map dl_line n1 = filter (changedLine dcW chunk1 chunk2) ls"
    "list_all2 (changedPair dcW chunk1 chunk2) n1 n2"
    by blast
  from compareLines_line_step [OF step] show ?case
  proof (elim disjE conjE exE)
    assume "\<not> changedLine dcW chunk1 chunk2 line1" "mid = bds"
    with IH show ?thesis by auto
  next
    fix e1 e2
    assume a: "changedLine dcW chunk1 chunk2 line1" "dl_line e1 = line1"
      "changedPair dcW chunk1 chunk2 e1 e2"
      "changedLines (fst mid) = changedLines (fst bds) @ [e1]"
      "changedLines (snd mid) = changedLines (snd bds) @ [e2]"
    have "changedLines (fst bds') = changedLines (fst bds) @ (e1 # n1)"
      "changedLines (snd bds') = changedLines (snd bds) @ (e2 # n2)"
      "map dl_line (e1 # n1) = filter (changedLine dcW chunk1 chunk2) (line1 # ls)"
      "list_all2 (changedPair dcW chunk1 chunk2) (e1 # n1) (e2 # n2)"
      using IH a by simp_all
    then show ?thesis by blast
  qed
qed

text \<open>
  Claim C7.  When \<open>compareLines\<close> returns, the changed-line list of each block is the list
  it had, followed by one entry for every line of the first chunk that is mapped and whose
  word diff with its counterpart is not empty, in the order of the lines, and by nothing
  else: a mapped pair with an empty word diff and an unmapped line append nothing.  The two
  entries of a pair carry the two line numbers of the pair, and each of them holds exactly
  one change per run of the word diff that is only in its own line, in order; a change
  starts at the position of the first word of its run and ends at the position of the last
  word of the run plus that word's length.
\<close>

theorem compareLines_changes:
  assumes "compareLines dcW blockDiff1 blockDiff2 chunk1 chunk2 = Some bds"
  shows "\<exists>n1 n2. changedLines (fst bds) = changedLines blockDiff1 @ n1 \<and>
                 changedLines (snd bds) = changedLines blockDiff2 @ n2 \<and>
                 map dl_line n1 =
                   filter (changedLine dcW chunk1 chunk2) [0..lineCount chunk1 - 1] \<and>
                 list_all2 (changedPair dcW chunk1 chunk2) n1 n2"
  using compareLines_loop_changes [of dcW chunk1 chunk2 "[0..lineCount chunk1 - 1]"
          "(blockDiff1, blockDiff2)" bds] assms
  by (simp add: compareLines_def)

subsection \<open>Marking leaves the text of the views alone\<close>

lemma getView_setView: "getView (setView npp h v) h' = (if h' = h then v else getView npp h')"
  by (cases h; cases h') (simp_all add: getView_def setView_def)

lemma docLines_setView:
  "sci_lines v = sci_lines (getView npp h) \<Longrightarrow> docLines (setView npp h v) = docLines npp"
  by (cases h) (simp_all add: docLines_def getView_def setView_def)

lemma sci_lines_fold_marker:
  "sci_lines (fold (\<lambda>i v. SCI_MARKERADDSET v (f i) (g i)) is v) = sci_lines v"
  by (induction "is" arbitrary: v) (simp_all add: SCI_MARKERADDSET_def)

lemma sci_lines_fold_changed:
  "sci_lines (fold (\<lambda>c v. markTextAsChanged v (f c) (g c)) cs v) = sci_lines v"
  by (induction cs arbitrary: v) (simp_all add: markTextAsChanged_def)

lemma docLines_markSection [simp]: "docLines (markSection bd doc npp) = docLines npp"
  unfolding markSection_def by (rule docLines_setView) (simp add: sci_lines_fold_marker)

lemma docLines_markChangedLine:
  "markChangedLine h bd lineIdx npp = Some npp' \<Longrightarrow> docLines npp' = docLines npp"
  by (auto simp: markChangedLine_def Let_def SCI_MARKERADDSET_def sci_lines_fold_changed
           intro!: docLines_setView split: Option.bind_splits)

lemma docLines_markLineDiffs:
  "markLineDiffs view1 view2 bd md lineIdx npp = Some npp' \<Longrightarrow> docLines npp' = docLines npp"
  by (auto simp: markLineDiffs_def split: Option.bind_splits dest!: docLines_markChangedLine)

lemma push_back_fields [simp]:
  "ms_npp (push_back_alignPair st) = ms_npp st"
  "ms_doc1 (push_back_alignPair st) = ms_doc1 st"
  "ms_doc2 (push_back_alignPair st) = ms_doc2 st"
  "ms_progress (push_back_alignPair st) = ms_progress st"
  "ms_pMain (push_back_alignPair st) = ms_pMain st"
  "ms_pSub (push_back_alignPair st) = ms_pSub st"
  "ms_swapped (push_back_alignPair st) = ms_swapped st"
  by (simp_all add: push_back_alignPair_def)

lemma setDiffMasks_fields [simp]:
  "ms_npp (setDiffMasks m1 m2 st) = ms_npp st"
  "ms_doc1 (setDiffMasks m1 m2 st) = ms_doc1 st"
  "ms_doc2 (setDiffMasks m1 m2 st) = ms_doc2 st"
  "ms_progress (setDiffMasks m1 m2 st) = ms_progress st"
  "ms_alignmentInfo (setDiffMasks m1 m2 st) = ms_alignmentInfo st"
  by (simp_all add: setDiffMasks_def)

lemma setSectionLens_fields [simp]:
  "ms_npp (setSectionLens l1 l2 st) = ms_npp st"
  "ms_progress (setSectionLens l1 l2 st) = ms_progress st"
  "ms_alignmentInfo (setSectionLens l1 l2 st) = ms_alignmentInfo st"
  by (simp_all add: setSectionLens_def)

lemma setSectionOffs_fields [simp]:
  "ms_npp (setSectionOffs o1 o2 st) = ms_npp st"
  "ms_progress (setSectionOffs o1 o2 st) = ms_progress st"
  "ms_alignmentInfo (setSectionOffs o1 o2 st) = ms_alignmentInfo st"
  by (simp_all add: setSectionOffs_def)

lemma markGap_frame:
  "docLines (ms_npp (markGap bd md st)) = docLines (ms_npp st) \<and>
   ms_progress (markGap bd md st) = ms_progress st"
  by (simp add: markGap_def Let_def)

lemma markChangedLines_frame:
  "markChangedLines bd md js st = Some st' \<Longrightarrow>
   docLines (ms_npp st') = docLines (ms_npp st) \<and> ms_progress st' = ms_progress st"
proof (induction js arbitrary: st)
  case Nil
  then show ?case by simp
next
  case (Cons j js)
  then show ?case
    by (auto simp: Let_def markGap_frame split: Option.bind_splits
             dest!: docLines_markLineDiffs)
qed

lemma markBlock_frame:
  "markBlock diffBlocks bd st = Some st' \<Longrightarrow>
   docLines (ms_npp st') = docLines (ms_npp st) \<and> ms_progress st' = ms_progress st"
  by (auto simp: markBlock_def Let_def markGap_frame
           split: if_splits option.splits Option.bind_splits dest!: markChangedLines_frame)

declare markAllDiffs_loop.simps [simp del]

lemma markAllDiffs_loop_frame:
  "markAllDiffs_loop diffBlocks i st = Some r \<Longrightarrow>
   docLines (ms_npp (snd r)) = docLines (ms_npp st)"
proof (induction diffBlocks i st rule: markAllDiffs_loop.induct)
  case (1 diffBlocks i st)
  show ?case
  proof (cases "i < length diffBlocks")
    case False
    with "1.prems" show ?thesis by (auto simp: markAllDiffs_loop.simps [of diffBlocks i st])
  next
    case True
    note unf = markAllDiffs_loop.simps [of diffBlocks i st]
    from "1.prems" True obtain st1 where
      mb: "markBlock diffBlocks (diffBlocks ! i) st = Some st1"
      by (auto simp: unf split: option.splits)
    let ?st2 = "push_back_alignPair (setDiffMasks NO_MASK NO_MASK st1)"
    let ?chk = "advance_chk (ms_progress ?st2)"
    let ?st3 = "?st2\<lparr>ms_progress := snd ?chk\<rparr>"
    have l3: "docLines (ms_npp ?st3) = docLines (ms_npp st)"
      using markBlock_frame [OF mb] by simp
    show ?thesis
    proof (cases "fst ?chk")
      case c: True
      with "1.prems" True mb have "r = (False, ?st3)" by (simp add: unf Let_def)
      with l3 show ?thesis by simp
    next
      case c: False
      let ?i' = "if d_type (diffBlocks ! i) = DIFF_IN_1 \<and> matchedDiff (diffBlocks ! i) \<noteq> None
                 then i + 2 else i + 1"
      from "1.prems" True mb c have rec: "markAllDiffs_loop diffBlocks ?i' ?st3 = Some r"
        by (simp add: unf Let_def)
      from "1.IH" [OF True mb refl refl refl c rec] l3 show ?thesis by simp
    qed
  qed
qed

subsection \<open>Progress queries and pair references\<close>

lemma advance_chk_reported: "fst (advance_chk pr) = reported (snd (advance_chk pr))"
  by (auto simp: advance_chk_def Advance_def reported_def cancelled_now_def polled_def
           split: option.splits)

lemma nextPhase_chk_reported: "fst (nextPhase_chk pr) = reported (snd (nextPhase_chk pr))"
  by (auto simp: nextPhase_chk_def NextPhase_def reported_def cancelled_now_def polled_def
           split: option.splits)

lemma advance_chk_None [simp]: "advance_chk None = (False, None)"
  by (simp add: advance_chk_def)

lemma nextPhase_chk_None [simp]: "nextPhase_chk None = (False, None)"
  by (simp add: nextPhase_chk_def)

lemma isCancelled_chk_None [simp]: "isCancelled_chk None = (False, None)"
  by (simp add: isCancelled_chk_def)

lemma markAllDiffs_loop_cancelled:
  "markAllDiffs_loop diffBlocks i st = Some r \<Longrightarrow> \<not> fst r \<Longrightarrow> reported (ms_progress (snd r))"
proof (induction diffBlocks i st rule: markAllDiffs_loop.induct)
  case (1 diffBlocks i st)
  note unf = markAllDiffs_loop.simps [of diffBlocks i st]
  show ?case
  proof (cases "i < length diffBlocks")
    case False
    with "1.prems" show ?thesis by (auto simp: unf)
  next
    case True
    from "1.prems" True obtain st1 where
      mb: "markBlock diffBlocks (diffBlocks ! i) st = Some st1"
      by (auto simp: unf split: option.splits)
    let ?st2 = "push_back_alignPair (setDiffMasks NO_MASK NO_MASK st1)"
    let ?chk = "advance_chk (ms_progress ?st2)"
    let ?st3 = "?st2\<lparr>ms_progress := snd ?chk\<rparr>"
    show ?thesis
    proof (cases "fst ?chk")
      case c: True
      with "1.prems" True mb have "r = (False, ?st3)" by (simp add: unf Let_def)
      with c show ?thesis by (simp add: advance_chk_reported)
    next
      case c: False
      let ?i' = "if d_type (diffBlocks ! i) = DIFF_IN_1 \<and> matchedDiff (diffBlocks ! i) \<noteq> None
                 then i + 2 else i + 1"
      from "1.prems" True mb c have rec: "markAllDiffs_loop diffBlocks ?i' ?st3 = Some r"
        by (simp add: unf Let_def)
      from "1.IH" [OF True mb refl refl refl c rec "1.prems"(2)] show ?thesis .
    qed
  qed
qed

lemma markAllDiffs_result:
  assumes "markAllDiffs npp pr doc1 doc2 diffBlocks = Some m"
  shows "fst m = (\<not> reported (ms_progress (snd m)))"
    and "docLines (ms_npp (snd m)) = docLines npp"
proof -
  from assms obtain r where
    loop: "markAllDiffs_loop diffBlocks 0
              \<lparr>ms_npp = npp, ms_doc1 = doc1, ms_doc2 = doc2,
               ms_pMain = \<lparr>al_line = s_off (doc_section doc1), al_diffMask = NO_MASK\<rparr>,
               ms_pSub = \<lparr>al_line = s_off (doc_section doc2), al_diffMask = NO_MASK\<rparr>,
               ms_swapped = (doc_view doc1 = scintillaSecondHandle),
               ms_alignmentInfo = [], ms_progress = pr\<rparr> = Some r"
    and m: "m = (if fst r
                 then (\<not> fst (nextPhase_chk (ms_progress (snd r))),
                       (snd r)\<lparr>ms_progress := snd (nextPhase_chk (ms_progress (snd r)))\<rparr>)
                 else r)"
    by (auto simp: markAllDiffs_def Let_def split: Option.bind_splits if_splits)
  show "fst m = (\<not> reported (ms_progress (snd m)))"
    using m markAllDiffs_loop_cancelled [OF loop]
    by (auto simp: nextPhase_chk_reported)
  show "docLines (ms_npp (snd m)) = docLines npp"
    using m markAllDiffs_loop_frame [OF loop] by (auto split: if_splits)
qed

lemma compareBlocks_same:
  assumes "compareBlocks dcW npp doc1 doc2 settings blockDiff1 blockDiff2 = Some r"
  shows "sameButChangedLines blockDiff1 (cb_blockDiff1 r)"
    and "sameButChangedLines blockDiff2 (cb_blockDiff2 r)"
  using compareBlocks_appends [OF assms] by auto

lemma blockCompare_length:
  "blockCompare dcW npp doc1 doc2 settings i bs = Some bs' \<Longrightarrow> length bs' = length bs"
  by (auto simp: blockCompare_def split: if_splits Option.bind_splits)

lemma blockCompare_types:
  assumes "blockCompare dcW npp doc1 doc2 settings i bs = Some bs'"
  shows "map d_type bs' = map d_type bs"
proof (cases "pairsAt bs i")
  case False
  with assms show ?thesis by (simp add: blockCompare_def)
next
  case True
  with assms obtain r where
    r: "compareBlocks dcW npp doc1 doc2 settings
               ((bs ! (i - 1))\<lparr>matchedDiff := Some i\<rparr>)
               ((bs ! i)\<lparr>matchedDiff := Some (i - 1)\<rparr>) = Some r"
    and bs': "bs' = bs[i - 1 := cb_blockDiff1 r, i := cb_blockDiff2 r]"
    by (auto simp: blockCompare_def split: Option.bind_splits)
  from compareBlocks_same [OF r]
  have "d_type (cb_blockDiff1 r) = d_type (bs ! (i - 1))" "d_type (cb_blockDiff2 r) = d_type (bs ! i)"
    by (auto dest!: sameButChangedLines_fields)
  then have "d_type (bs' ! n) = d_type (bs ! n)" if "n < length bs" for n
    unfolding bs' using that by (cases "n = i"; cases "n = i - 1") simp_all
  then show ?thesis
    by (intro nth_equalityI) (simp_all add: bs')
qed

lemma blockCompare_pairsBelow:
  assumes run: "blockCompare dcW npp doc1 doc2 settings k bs = Some bs'"
    and k: "k < length bs" and inv: "pairsBelow k bs"
  shows "pairsBelow (Suc k) bs'"
proof (cases "pairsAt bs k")
  case False
  with run have "bs' = bs" by (simp add: blockCompare_def)
  with inv show ?thesis by (auto simp: pairsBelow_def)
next
  case True
  then have t: "d_type (bs ! k) = DIFF_IN_2" "0 < k" "d_type (bs ! (k - 1)) = DIFF_IN_1"
    by (auto simp: pairsAt_def)
  from run True obtain r where
    r: "compareBlocks dcW npp doc1 doc2 settings
               ((bs ! (k - 1))\<lparr>matchedDiff := Some k\<rparr>)
               ((bs ! k)\<lparr>matchedDiff := Some (k - 1)\<rparr>) = Some r"
    and bs': "bs' = bs[k - 1 := cb_blockDiff1 r, k := cb_blockDiff2 r]"
    by (auto simp: blockCompare_def split: Option.bind_splits)
  from compareBlocks_same [OF r]
  have f1: "d_type (cb_blockDiff1 r) = DIFF_IN_1" "matchedDiff (cb_blockDiff1 r) = Some k"
    and f2: "d_type (cb_blockDiff2 r) = DIFF_IN_2" "matchedDiff (cb_blockDiff2 r) = Some (k - 1)"
    using t by (auto dest!: sameButChangedLines_fields)
  have len: "length bs' = length bs" using bs' by simp
  have nk1: "bs' ! (k - 1) = cb_blockDiff1 r" using bs' k t by (simp add: nth_list_update)
  have nk: "bs' ! k = cb_blockDiff2 r" using bs' k by simp
  have other: "\<And>i. i \<noteq> k \<Longrightarrow> i \<noteq> k - 1 \<Longrightarrow> bs' ! i = bs ! i" using bs' by simp
  have ty: "\<And>i. i < length bs \<Longrightarrow> d_type (bs' ! i) = d_type (bs ! i)"
    using blockCompare_types [OF run] by (metis length_map nth_map len)
  show ?thesis
    unfolding pairsBelow_def
  proof (intro allI impI)
    fix i j assume i: "i < length bs'" and m: "matchedDiff (bs' ! i) = Some j"
    consider "i = k" | "i = k - 1" | "i \<noteq> k" "i \<noteq> k - 1" by blast
    then show "pairedWith bs' i j \<and> i < Suc k \<and> j < Suc k"
    proof cases
      case 1
      with m nk f2 have "j = k - 1" by simp
      with 1 t k len nk nk1 f1 f2 show ?thesis by (auto simp: pairedWith_def)
    next
      case 2
      with m nk1 f1 have "j = k" by simp
      with 2 t k len nk nk1 f1 f2 show ?thesis by (auto simp: pairedWith_def)
    next
      case 3
      with m other have m0: "matchedDiff (bs ! i) = Some j" by simp
      with inv i len have p: "pairedWith bs i j" and ik: "i < k" and jk: "j < k"
        by (auto simp: pairsBelow_def)
      have "j \<noteq> k - 1"
      proof
        assume jk1: "j = k - 1"
        with p have "matchedDiff (bs ! (k - 1)) = Some i" by (simp add: pairedWith_def)
        with inv k t have "pairedWith bs (k - 1) i" by (auto simp: pairsBelow_def)
        with t have "i = Suc (k - 1)" by (auto simp: pairedWith_def)
        with ik t show False by simp
      qed
      with jk have "bs' ! j = bs ! j" using other by simp
      with p 3 other ty i len jk k show ?thesis
        using ik by (auto simp: pairedWith_def)
    qed
  qed
qed

lemma blockCompares_Cons:
  "blockCompares dcW npp doc1 doc2 settings (i # rest) bs pr = Some res \<Longrightarrow>
   \<exists>bs'. blockCompare dcW npp doc1 doc2 settings i bs = Some bs' \<and>
         (if fst (advance_chk pr) then res = (True, bs', snd (advance_chk pr))
          else blockCompares dcW npp doc1 doc2 settings rest bs' (snd (advance_chk pr)) = Some res)"
  by (cases "blockCompare dcW npp doc1 doc2 settings i bs") (simp_all split: if_splits)

lemma pairsBelow_length: "pairsBelow k bs \<Longrightarrow> pairsBelow (length bs) bs"
  unfolding pairsBelow_def
proof (intro allI impI)
  fix i j
  assume a: "\<forall>i<length bs. \<forall>j. matchedDiff (bs ! i) = Some j \<longrightarrow> pairedWith bs i j \<and> i < k \<and> j < k"
    and i: "i < length bs" and m: "matchedDiff (bs ! i) = Some j"
  then have p: "pairedWith bs i j" by blast
  then have "j < length bs" by (simp add: pairedWith_def)
  with p i show "pairedWith bs i j \<and> i < length bs \<and> j < length bs" by simp
qed

lemma blockCompares_pairs:
  "blockCompares dcW npp doc1 doc2 settings [k..<length bs] bs pr = Some res \<Longrightarrow>
   pairsBelow k bs \<Longrightarrow>
   pairsBelow (length bs) (fst (snd res)) \<and> map d_type (fst (snd res)) = map d_type bs"
proof (induction "length bs - k" arbitrary: k bs pr)
  case 0
  then have le: "length bs \<le> k" by simp
  then have "[k..<length bs] = []" by simp
  with "0.prems"(1) have "Some (False, bs, pr) = Some res" by simp
  then have "fst (snd res) = bs" by auto
  moreover from "0.prems"(2) have "pairsBelow (length bs) bs"
    by (rule pairsBelow_length)
  ultimately show ?case by simp
next
  case (Suc n)
  from Suc.hyps(2) have k: "k < length bs" by simp
  then have up: "[k..<length bs] = k # [Suc k..<length bs]" by (simp add: upt_conv_Cons)
  from Suc.prems(1) have
    "blockCompares dcW npp doc1 doc2 settings (k # [Suc k..<length bs]) bs pr = Some res"
    by (simp only: up)
  from blockCompares_Cons [OF this] obtain bs' where
    step: "blockCompare dcW npp doc1 doc2 settings k bs = Some bs'"
    and rest: "if fst (advance_chk pr) then res = (True, bs', snd (advance_chk pr))
          else blockCompares dcW npp doc1 doc2 settings [Suc k..<length bs] bs' (snd (advance_chk pr)) = Some res"
    by blast
  have len: "length bs' = length bs" by (rule blockCompare_length [OF step])
  have ty: "map d_type bs' = map d_type bs" by (rule blockCompare_types [OF step])
  have inv': "pairsBelow (Suc k) bs'" by (rule blockCompare_pairsBelow [OF step k Suc.prems(2)])
  show ?case
  proof (cases "fst (advance_chk pr)")
    case True
    with rest have "fst (snd res) = bs'" by simp
    moreover from pairsBelow_length [OF inv'] len have "pairsBelow (length bs) bs'"
      by simp
    ultimately show ?thesis using ty by simp
  next
    case False
    with rest have
      rec: "blockCompares dcW npp doc1 doc2 settings [Suc k..<length bs'] bs'
              (snd (advance_chk pr)) = Some res"
      by (simp add: len)
    have "n = length bs' - Suc k" using Suc.hyps(2) len by simp
    from Suc.hyps(1) [OF this rec inv'] show ?thesis using len ty by simp
  qed
qed

lemma blockCompares_cancelled:
  "blockCompares dcW npp doc1 doc2 settings is bs pr = Some res \<Longrightarrow>
   fst res \<Longrightarrow> reported (snd (snd res))"
proof (induction "is" arbitrary: bs pr)
  case Nil
  then show ?case by auto
next
  case (Cons i "is")
  from blockCompares_Cons [OF Cons.prems(1)] obtain bs' where
    rest: "if fst (advance_chk pr) then res = (True, bs', snd (advance_chk pr))
          else blockCompares dcW npp doc1 doc2 settings is bs' (snd (advance_chk pr)) = Some res"
    by blast
  show ?case
  proof (cases "fst (advance_chk pr)")
    case True
    with rest show ?thesis by (simp add: advance_chk_reported [symmetric])
  next
    case False
    with rest Cons.IH Cons.prems(2) show ?thesis by simp
  qed
qed

subsection \<open>The run from the first diff block on\<close>

lemma docLines_insertBlankLines:
  "doc_view doc1 \<noteq> doc_view doc2 \<Longrightarrow>
   docLines (insertBlankLines npp doc1 doc2) = withBlankLines (docLines npp)"
  by (cases "doc_view doc1"; cases "doc_view doc2")
     (simp_all add: insertBlankLines_def insertBlankLine_def Let_def docLines_def
        withBlankLines_def getView_def setView_def SCI_SETSAVEPOINT_def
        SCI_INSERTTEXT_newline_def)

lemma shiftBlock_fields [simp]:
  "d_type (shiftBlock o1 o2 bd) = d_type bd"
  "matchedDiff (shiftBlock o1 o2 bd) = matchedDiff bd"
  "changedLines (shiftBlock o1 o2 bd) = changedLines bd"
  by (simp_all add: shiftBlock_def)

lemma shiftBlocks_types [simp]: "map d_type (shiftBlocks doc1 doc2 bs) = map d_type bs"
  by (simp add: shiftBlocks_def comp_def)

lemma shiftBlocks_length [simp]: "length (shiftBlocks doc1 doc2 bs) = length bs"
  by (simp add: shiftBlocks_def)

lemma shiftBlocks_fresh:
  "\<forall>bd\<in>set bs. matchedDiff bd = None \<Longrightarrow> \<forall>bd\<in>set (shiftBlocks doc1 doc2 bs). matchedDiff bd = None"
  by (auto simp: shiftBlocks_def)

lemma fresh_pairsBelow: "\<forall>bd\<in>set bs. matchedDiff bd = None \<Longrightarrow> pairsBelow k bs"
  by (simp add: pairsBelow_def)

text \<open>The ways through \<open>runCompare\<close> once the diff blocks are there.\<close>

lemma runCompare_blocks_cases:
  assumes run: "runCompare_blocks dcW npp pr doc1 doc2 settings alignmentInfo bs0 = Some r"
  defines "blank \<equiv> needsBlankLines bs0 doc1 doc2"
  defines "npp1 \<equiv> (if blank then insertBlankLines npp doc1 doc2 else npp)"
  defines "doc1' \<equiv> (if blank then incSectionOff doc1 else doc1)"
  defines "doc2' \<equiv> (if blank then incSectionOff doc2 else doc2)"
  defines "bs1 \<equiv> shiftBlocks doc1' doc2' bs0"
  shows "(fst (nextPhase_chk pr) \<and> r = cancelledRun alignmentInfo npp1 (snd (nextPhase_chk pr)) bs1) \<or>
         (\<exists>bc. \<not> fst (nextPhase_chk pr) \<and>
             blockCompares dcW npp1 doc1' doc2' settings [0..<length bs1] bs1
               (snd (nextPhase_chk pr)) = Some bc \<and>
             ((fst bc \<and> r = cancelledRun alignmentInfo npp1 (snd (snd bc)) (fst (snd bc))) \<or>
              (\<not> fst bc \<and> fst (nextPhase_chk (snd (snd bc))) \<and>
                 r = cancelledRun alignmentInfo npp1 (snd (nextPhase_chk (snd (snd bc))))
                       (fst (snd bc))) \<or>
              (\<exists>m. \<not> fst bc \<and> \<not> fst (nextPhase_chk (snd (snd bc))) \<and>
                 markAllDiffs npp1 (snd (nextPhase_chk (snd (snd bc)))) doc1' doc2'
                    (fst (snd bc)) = Some m \<and>
                 r = \<lparr>cr_result = (if fst m then COMPARE_MISMATCH else COMPARE_CANCELLED),
                       cr_alignmentInfo = ms_alignmentInfo (snd m), cr_npp = ms_npp (snd m),
                       cr_progress = ms_progress (snd m), cr_diffBlocks = fst (snd bc)\<rparr>)))"
proof -
  note defs = runCompare_blocks_def Let_def blank_def npp1_def doc1'_def doc2'_def bs1_def
  let ?c1 = "nextPhase_chk pr"
  show ?thesis
  proof (cases "fst ?c1")
    case True
    with run have "r = cancelledRun alignmentInfo npp1 (snd ?c1) bs1"
      unfolding defs by simp
    with True show ?thesis by blast
  next
    case c1: False
    with run obtain bc where
      bc: "blockCompares dcW npp1 doc1' doc2' settings [0..<length bs1] bs1 (snd ?c1) = Some bc"
      unfolding defs by (simp split: Option.bind_splits)
    show ?thesis
    proof (cases "fst bc")
      case True
      with run c1 bc have "r = cancelledRun alignmentInfo npp1 (snd (snd bc)) (fst (snd bc))"
        unfolding defs by simp
      with c1 bc True show ?thesis by blast
    next
      case b: False
      let ?c2 = "nextPhase_chk (snd (snd bc))"
      show ?thesis
      proof (cases "fst ?c2")
        case True
        with run c1 bc b have "r = cancelledRun alignmentInfo npp1 (snd ?c2) (fst (snd bc))"
          unfolding defs by simp
        with c1 bc b True show ?thesis by blast
      next
        case c2: False
        with run c1 bc b obtain m where
          m: "markAllDiffs npp1 (snd ?c2) doc1' doc2' (fst (snd bc)) = Some m"
          and r: "r = \<lparr>cr_result = (if fst m then COMPARE_MISMATCH else COMPARE_CANCELLED),
                       cr_alignmentInfo = ms_alignmentInfo (snd m), cr_npp = ms_npp (snd m),
                       cr_progress = ms_progress (snd m), cr_diffBlocks = fst (snd bc)\<rparr>"
          unfolding defs by (simp split: Option.bind_splits)
        with c1 bc b c2 show ?thesis by blast
      qed
    qed
  qed
qed

lemma cancelledRun_fields [simp]:
  "cr_result (cancelledRun al npp pr bs) = COMPARE_CANCELLED"
  "cr_alignmentInfo (cancelledRun al npp pr bs) = al"
  "cr_npp (cancelledRun al npp pr bs) = npp"
  "cr_progress (cancelledRun al npp pr bs) = pr"
  "cr_diffBlocks (cancelledRun al npp pr bs) = bs"
  by (simp_all add: cancelledRun_def)

lemma blockCompares_types:
  "blockCompares dcW npp doc1 doc2 settings is bs pr = Some res \<Longrightarrow>
   map d_type (fst (snd res)) = map d_type bs"
proof (induction "is" arbitrary: bs pr)
  case Nil
  then show ?case by auto
next
  case (Cons i "is")
  from blockCompares_Cons [OF Cons.prems] obtain bs' where
    st: "blockCompare dcW npp doc1 doc2 settings i bs = Some bs'"
    and rest: "if fst (advance_chk pr) then res = (True, bs', snd (advance_chk pr))
      else blockCompares dcW npp doc1 doc2 settings is bs' (snd (advance_chk pr)) = Some res"
    by blast
  from blockCompare_types [OF st] rest Cons.IH show ?case
    by (cases "fst (advance_chk pr)") auto
qed

lemma runCompare_blocks_props:
  assumes run: "runCompare_blocks dcW npp pr doc1 doc2 settings alignmentInfo bs0 = Some r"
    and views: "doc_view doc1 \<noteq> doc_view doc2"
  shows "cr_result r = COMPARE_MISMATCH \<or> cr_result r = COMPARE_CANCELLED"
    and "(cr_result r = COMPARE_CANCELLED) = reported (cr_progress r)"
    and "map d_type (cr_diffBlocks r) = map d_type bs0"
    and "docLines (cr_npp r) =
           (if needsBlankLines bs0 doc1 doc2 then withBlankLines (docLines npp) else docLines npp)"
    and "(\<forall>bd\<in>set bs0. matchedDiff bd = None) \<Longrightarrow>
           pairsBelow (length (cr_diffBlocks r)) (cr_diffBlocks r)"
proof -
  define blank where "blank = needsBlankLines bs0 doc1 doc2"
  define npp1 where "npp1 = (if blank then insertBlankLines npp doc1 doc2 else npp)"
  define doc1' where "doc1' = (if blank then incSectionOff doc1 else doc1)"
  define doc2' where "doc2' = (if blank then incSectionOff doc2 else doc2)"
  define bs1 where "bs1 = shiftBlocks doc1' doc2' bs0"
  note cases = runCompare_blocks_cases [OF run, folded blank_def, folded npp1_def doc1'_def doc2'_def,
      folded bs1_def]
  have lines1: "docLines npp1 =
      (if needsBlankLines bs0 doc1 doc2 then withBlankLines (docLines npp) else docLines npp)"
    using views by (simp add: npp1_def blank_def docLines_insertBlankLines)
  have ty1: "map d_type bs1 = map d_type bs0" by (simp add: bs1_def)
  have fresh1: "pairsBelow 0 bs1" if "\<forall>bd\<in>set bs0. matchedDiff bd = None"
    using that unfolding bs1_def by (intro fresh_pairsBelow shiftBlocks_fresh)
  have bcp: "pairsBelow (length (fst (snd bc))) (fst (snd bc)) \<and> map d_type (fst (snd bc)) = map d_type bs0"
    if "blockCompares dcW npp1 doc1' doc2' settings [0..<length bs1] bs1 pr' = Some bc"
      and "\<forall>bd\<in>set bs0. matchedDiff bd = None" for bc pr'
  proof -
    from blockCompares_pairs [OF that(1) fresh1 [OF that(2)]]
    have a: "pairsBelow (length bs1) (fst (snd bc))" and b: "map d_type (fst (snd bc)) = map d_type bs1"
      by auto
    from b have "length (fst (snd bc)) = length bs1" by (metis length_map)
    with a b ty1 show ?thesis by simp
  qed
  have bct: "map d_type (fst (snd bc)) = map d_type bs0"
    if "blockCompares dcW npp1 doc1' doc2' settings [0..<length bs1] bs1 pr' = Some bc" for bc pr'
    using blockCompares_types [OF that] ty1 by simp
  from cases show "cr_result r = COMPARE_MISMATCH \<or> cr_result r = COMPARE_CANCELLED"
    by (auto split: if_splits)
  from cases show "(cr_result r = COMPARE_CANCELLED) = reported (cr_progress r)"
  proof (elim disjE exE conjE)
    assume "fst (nextPhase_chk pr)" "r = cancelledRun alignmentInfo npp1 (snd (nextPhase_chk pr)) bs1"
    then show ?thesis by (simp add: nextPhase_chk_reported [symmetric])
  next
    fix bc assume "blockCompares dcW npp1 doc1' doc2' settings [0..<length bs1] bs1
        (snd (nextPhase_chk pr)) = Some bc" "fst bc"
      "r = cancelledRun alignmentInfo npp1 (snd (snd bc)) (fst (snd bc))"
    then show ?thesis using blockCompares_cancelled by simp
  next
    fix bc assume "fst (nextPhase_chk (snd (snd bc)))"
      "r = cancelledRun alignmentInfo npp1 (snd (nextPhase_chk (snd (snd bc)))) (fst (snd bc))"
    then show ?thesis by (simp add: nextPhase_chk_reported [symmetric])
  next
    fix bc m assume m: "markAllDiffs npp1 (snd (nextPhase_chk (snd (snd bc)))) doc1' doc2'
        (fst (snd bc)) = Some m"
      and r: "r = \<lparr>cr_result = (if fst m then COMPARE_MISMATCH else COMPARE_CANCELLED),
                       cr_alignmentInfo = ms_alignmentInfo (snd m), cr_npp = ms_npp (snd m),
                       cr_progress = ms_progress (snd m), cr_diffBlocks = fst (snd bc)\<rparr>"
    from markAllDiffs_result(1) [OF m] r show ?thesis by simp
  qed
  from cases show "map d_type (cr_diffBlocks r) = map d_type bs0"
    using ty1 bct by (elim disjE exE conjE) simp_all
  from cases show "docLines (cr_npp r) =
           (if needsBlankLines bs0 doc1 doc2 then withBlankLines (docLines npp) else docLines npp)"
  proof (elim disjE exE conjE)
    fix bc m assume m: "markAllDiffs npp1 (snd (nextPhase_chk (snd (snd bc)))) doc1' doc2'
        (fst (snd bc)) = Some m"
      and r: "r = \<lparr>cr_result = (if fst m then COMPARE_MISMATCH else COMPARE_CANCELLED),
                       cr_alignmentInfo = ms_alignmentInfo (snd m), cr_npp = ms_npp (snd m),
                       cr_progress = ms_progress (snd m), cr_diffBlocks = fst (snd bc)\<rparr>"
    from markAllDiffs_result(2) [OF m] r lines1 show ?thesis by simp
  qed (simp_all add: lines1)
  show "pairsBelow (length (cr_diffBlocks r)) (cr_diffBlocks r)"
    if fresh: "\<forall>bd\<in>set bs0. matchedDiff bd = None"
    using cases
  proof (elim disjE exE conjE)
    assume "r = cancelledRun alignmentInfo npp1 (snd (nextPhase_chk pr)) bs1"
    then show ?thesis using pairsBelow_length [OF fresh1 [OF fresh]] by simp
  qed (use bcp fresh in simp_all)
qed

subsection \<open>The orchestrator\<close>

lemma computeLineHashes_doc:
  assumes "computeLineHashes npp pr doc settings = Some h"
  shows "doc_view (fst (snd h)) = doc_view doc"
    and "s_off (doc_section (fst (snd h))) = s_off (doc_section doc)"
  using assms
  by (auto simp: computeLineHashes_def Let_def split: if_splits prod.splits)

lemma hd_type: "map d_type bs = map d_type bs0 \<Longrightarrow> bs0 \<noteq> [] \<Longrightarrow>
  bs \<noteq> [] \<and> d_type (hd bs) = d_type (hd bs0)"
  by (cases bs; cases bs0) auto

lemma runCompare_diff_all:
  assumes run: "runCompare_diff dcL dcW npp pr h1 h2 doc1 doc2 settings alignmentInfo = Some r"
    and views: "doc_view doc1 \<noteq> doc_view doc2"
    and pr: "\<not> reported pr"
  shows "((cr_result r = COMPARE_MATCH) = (cr_diffBlocks r = [])) \<and>
      (cr_result r = COMPARE_MATCH \<longrightarrow> cr_alignmentInfo r = alignmentInfo \<and> cr_npp r = npp) \<and>
      cr_result r \<noteq> COMPARE_ERROR \<and>
      (cr_result r = COMPARE_CANCELLED) = reported (cr_progress r) \<and>
      docLines (cr_npp r) =
           (if cr_diffBlocks r \<noteq> [] \<and> d_type (hd (cr_diffBlocks r)) \<noteq> DIFF_MATCH \<and>
               (s_off (doc_section doc1) = 0 \<or> s_off (doc_section doc2) = 0)
            then withBlankLines (docLines npp) else docLines npp) \<and>
      (freshBlocks dcL \<longrightarrow> pairsBelow (length (cr_diffBlocks r)) (cr_diffBlocks r))"
proof -
  define swapped where "swapped = (length h1 > length h2)"
  define cdoc1 where "cdoc1 = (if swapped then doc2 else doc1)"
  define cdoc2 where "cdoc2 = (if swapped then doc1 else doc2)"
  define bs0 where "bs0 = dcL (if \<not> DetectMoves settings then DONT_DETECT
                         else if DetectMovesLineMode settings then ELEMENT_BASED
                         else BLOCK_BASED) (if swapped then h2 else h1) (if swapped then h1 else h2)"
  have cviews: "doc_view cdoc1 \<noteq> doc_view cdoc2"
    using views by (auto simp: cdoc1_def cdoc2_def)
  have offs: "(s_off (doc_section cdoc1) = 0 \<or> s_off (doc_section cdoc2) = 0) =
              (s_off (doc_section doc1) = 0 \<or> s_off (doc_section doc2) = 0)"
    by (auto simp: cdoc1_def cdoc2_def)
  show ?thesis
  proof (cases "bs0 = []")
    case True
    with run have "r = \<lparr>cr_result = COMPARE_MATCH, cr_alignmentInfo = alignmentInfo, cr_npp = npp,
                    cr_progress = pr, cr_diffBlocks = []\<rparr>"
      unfolding runCompare_diff_def Let_def bs0_def swapped_def by simp
    with pr show ?thesis
      by (simp add: pairsBelow_def)
  next
    case False
    with run have rb: "runCompare_blocks dcW npp pr cdoc1 cdoc2 settings alignmentInfo bs0 = Some r"
      unfolding runCompare_diff_def Let_def bs0_def swapped_def cdoc1_def cdoc2_def by simp
    note p = runCompare_blocks_props [OF rb cviews]
    from hd_type [OF p(3) False] have ne: "cr_diffBlocks r \<noteq> []"
      and hd: "d_type (hd (cr_diffBlocks r)) = d_type (hd bs0)" by auto
    have fr: "freshBlocks dcL \<Longrightarrow> \<forall>bd\<in>set bs0. matchedDiff bd = None"
      unfolding freshBlocks_def bs0_def by blast
    from p(1) p(2) p(4) p(5) ne hd offs fr
    show ?thesis
      by (auto simp: needsBlankLines_def)
  qed
qed

lemmas runCompare_diff_props =
  runCompare_diff_all [THEN conjunct1]
  runCompare_diff_all [THEN conjunct2, THEN conjunct1, rule_format]
  runCompare_diff_all [THEN conjunct2, THEN conjunct2, THEN conjunct1]
  runCompare_diff_all [THEN conjunct2, THEN conjunct2, THEN conjunct2, THEN conjunct1]
  runCompare_diff_all [THEN conjunct2, THEN conjunct2, THEN conjunct2, THEN conjunct2, THEN conjunct1]
  runCompare_diff_all [THEN conjunct2, THEN conjunct2, THEN conjunct2, THEN conjunct2, THEN conjunct2,
    rule_format]

lemma hashLines_None: "snd (hashLines v st off ls None acc) = None"
  by (induction ls arbitrary: acc) (simp_all add: Let_def)

lemma computeLineHashes_None:
  assumes "computeLineHashes npp None doc settings = Some h"
  shows "snd (snd h) = None"
proof -
  from assms obtain v off ls where "snd (snd h) = snd (hashLines v settings off ls None [])"
    unfolding computeLineHashes_def Let_def
    by (auto split: if_splits prod.splits) (metis snd_conv)+
  then show ?thesis by (simp add: hashLines_None)
qed

text \<open>How an invocation gets through the two hashing phases.\<close>

lemma runCompare_cases:
  assumes run: "runCompare dcL dcW npp progress mainViewSection subViewSection settings
                  alignmentInfo = Some r"
  shows "(\<exists>pr. reported pr \<and> progress \<noteq> None \<and> r = cancelledRun alignmentInfo npp pr []) \<or>
         (\<exists>pr h1 h2 doc1 doc2. \<not> reported pr \<and> (progress = None \<longrightarrow> pr = None) \<and>
            doc_view doc1 \<noteq> doc_view doc2 \<and>
            s_off (doc_section doc1) = s_off mainViewSection \<and>
            s_off (doc_section doc2) = s_off subViewSection \<and>
            runCompare_diff dcL dcW npp pr h1 h2 doc1 doc2 settings alignmentInfo = Some r)"
proof -
  let ?d1 = "\<lparr>doc_view = scintillaMainHandle, doc_section = mainViewSection,
                blockDiffMask = (if OldFileViewId settings = MAIN_VIEW
                                 then MARKER_MASK_REMOVED else MARKER_MASK_ADDED)\<rparr>"
  let ?d2 = "\<lparr>doc_view = scintillaSecondHandle, doc_section = subViewSection,
                  blockDiffMask = (if OldFileViewId settings = MAIN_VIEW
                                   then MARKER_MASK_ADDED else MARKER_MASK_REMOVED)\<rparr>"
  from run obtain h1 where h1: "computeLineHashes npp progress ?d1 settings = Some h1"
    unfolding runCompare_def by (auto split: Option.bind_splits)
  let ?c1 = "advance_chk (snd (snd h1))"
  have n1: "snd ?c1 = None" if "progress = None"
    using computeLineHashes_None [of npp ?d1 settings h1] h1 that by simp
  show ?thesis
  proof (cases "fst ?c1")
    case True
    with run h1 have "r = cancelledRun alignmentInfo npp (snd ?c1) []"
      unfolding runCompare_def by simp
    moreover from True have "reported (snd ?c1)" by (simp add: advance_chk_reported)
    moreover from this n1 have "progress \<noteq> None" by (cases progress) (simp_all add: reported_def)
    ultimately show ?thesis by blast
  next
    case c1: False
    with run h1 obtain h2 where h2: "computeLineHashes npp (snd ?c1) ?d2 settings = Some h2"
      unfolding runCompare_def by (auto split: Option.bind_splits)
    let ?c2 = "advance_chk (snd (snd h2))"
    have n2: "snd ?c2 = None" if "progress = None"
      using computeLineHashes_None [of npp ?d2 settings h2] h2 n1 [OF that] by simp
    show ?thesis
    proof (cases "fst ?c2")
      case True
      with run h1 c1 h2 have "r = cancelledRun alignmentInfo npp (snd ?c2) []"
        unfolding runCompare_def by simp
      moreover from True have "reported (snd ?c2)" by (simp add: advance_chk_reported)
      moreover from this n2 have "progress \<noteq> None" by (cases progress) (simp_all add: reported_def)
      ultimately show ?thesis by blast
    next
      case c2: False
      with run h1 c1 h2 have
        rd: "runCompare_diff dcL dcW npp (snd ?c2) (fst h1) (fst h2) (fst (snd h1)) (fst (snd h2))
               settings alignmentInfo = Some r"
        unfolding runCompare_def by simp
      from computeLineHashes_doc [OF h1] computeLineHashes_doc [OF h2] c2 rd n2
      show ?thesis
        by (intro disjI2 exI [of _ "snd ?c2"] exI [of _ "fst h1"] exI [of _ "fst h2"]
                  exI [of _ "fst (snd h1)"] exI [of _ "fst (snd h2)"])
           (simp add: advance_chk_reported)
    qed
  qed
qed

text \<open>\<open>COMPARE_MATCH\<close> is the result of the early return on an empty block list only.\<close>

lemma runCompare_match_iff:
  assumes "runCompare dcL dcW npp progress mainViewSection subViewSection settings
             alignmentInfo = Some r"
  shows "(cr_result r = COMPARE_MATCH) =
           (cr_diffBlocks r = [] \<and> cr_result r \<noteq> COMPARE_CANCELLED) \<and>
         (cr_result r = COMPARE_MATCH \<longrightarrow>
            cr_alignmentInfo r = alignmentInfo \<and> cr_npp r = npp)"
  using runCompare_cases [OF assms]
proof (elim disjE exE conjE)
  fix pr assume "r = cancelledRun alignmentInfo npp pr []"
  then show ?thesis by simp
next
  fix pr h1 h2 doc1 doc2
  assume a: "\<not> reported pr" "doc_view doc1 \<noteq> doc_view doc2"
    "runCompare_diff dcL dcW npp pr h1 h2 doc1 doc2 settings alignmentInfo = Some r"
  note p = runCompare_diff_props [OF a(3) a(2) a(1)]
  from p(1) p(2) show ?thesis by auto
qed

text \<open>
  Claim C2, as amended.  An invocation that returns ends with \<open>COMPARE_CANCELLED\<close> exactly
  when one of the queries of the progress sink made during the invocation was answered
  "cancelled".  (The diff blocks are local to \<open>runCompare\<close> and never reach the caller.  What
  the marking phase has appended to the alignment list and set in the views before a
  cancellation stays there: see the counterexample.)
\<close>

theorem runCompare_cancelled_iff_reported:
  assumes "runCompare dcL dcW npp progress mainViewSection subViewSection settings
             alignmentInfo = Some r"
  shows "(cr_result r = COMPARE_CANCELLED) = reported (cr_progress r)"
  using runCompare_cases [OF assms]
proof (elim disjE exE conjE)
  fix pr assume "r = cancelledRun alignmentInfo npp pr []" "reported pr"
  then show ?thesis by simp
next
  fix pr h1 h2 doc1 doc2
  assume a: "\<not> reported pr" "doc_view doc1 \<noteq> doc_view doc2"
    "runCompare_diff dcL dcW npp pr h1 h2 doc1 doc2 settings alignmentInfo = Some r"
  from runCompare_diff_props(4) [OF a(3) a(2) a(1)] show ?thesis .
qed

text \<open>
  Claim C5.  When \<open>runCompare\<close> returns (with whatever status), every pair reference among
  its diff blocks is reciprocal and links a \<open>DIFF_IN_1\<close> block with the \<open>DIFF_IN_2\<close> block
  immediately behind it.  A block is assigned a pair reference at most once: block \<open>i\<close>
  is written at step \<open>i\<close> of the loop (as the second block) or at step \<open>i + 1\<close> (as the
  first), and the test of the loop cannot hold at both.  The diff engine is taken to
  return blocks without pair references.
\<close>

theorem runCompare_pairs_reciprocal:
  assumes "runCompare dcL dcW npp progress mainViewSection subViewSection settings
             alignmentInfo = Some r"
    and "freshBlocks dcL"
  shows "reciprocalPairs (cr_diffBlocks r) \<and>
         (\<forall>i. \<not> (pairsAt (cr_diffBlocks r) i \<and> pairsAt (cr_diffBlocks r) (Suc i)))"
proof
  show "\<forall>i. \<not> (pairsAt (cr_diffBlocks r) i \<and> pairsAt (cr_diffBlocks r) (Suc i))"
    by (auto simp: pairsAt_def)
  from runCompare_cases [OF assms(1)] show "reciprocalPairs (cr_diffBlocks r)"
  proof (elim disjE exE conjE)
    fix pr assume "r = cancelledRun alignmentInfo npp pr []"
    then show ?thesis by (simp add: reciprocalPairs_def)
  next
    fix pr h1 h2 doc1 doc2
    assume a: "\<not> reported pr" "doc_view doc1 \<noteq> doc_view doc2"
      "runCompare_diff dcL dcW npp pr h1 h2 doc1 doc2 settings alignmentInfo = Some r"
    from runCompare_diff_props(6) [OF a(3) a(2) a(1) assms(2)] show ?thesis
      by (simp add: reciprocalPairs_def pairsBelow_def)
  qed
qed

text \<open>
  Claim C6, as amended.  The lines of both documents after an invocation are the lines
  before it, except when the first diff block is not a MATCH block and one of the two
  sections starts at line 0: then both documents have got one blank line in front.
  (Markers and text indicators are set on the views as well.)
\<close>

theorem runCompare_text:
  assumes "runCompare dcL dcW npp progress mainViewSection subViewSection settings
             alignmentInfo = Some r"
  shows "docLines (cr_npp r) =
           (if startsWithDiff (cr_diffBlocks r) mainViewSection subViewSection
            then withBlankLines (docLines npp) else docLines npp)"
  using runCompare_cases [OF assms]
proof (elim disjE exE conjE)
  fix pr assume "r = cancelledRun alignmentInfo npp pr []"
  then show ?thesis by (simp add: startsWithDiff_def)
next
  fix pr h1 h2 doc1 doc2
  assume a: "\<not> reported pr" "doc_view doc1 \<noteq> doc_view doc2"
    "runCompare_diff dcL dcW npp pr h1 h2 doc1 doc2 settings alignmentInfo = Some r"
    and s: "s_off (doc_section doc1) = s_off mainViewSection"
    "s_off (doc_section doc2) = s_off subViewSection"
  from runCompare_diff_props(5) [OF a(3) a(2) a(1)] s show ?thesis
    by (simp add: startsWithDiff_def)
qed

subsection \<open>Identical documents\<close>

lemma neverCancels_checks:
  assumes "neverCancels pr"
  shows "\<not> fst (isCancelled_chk pr)" "neverCancels (snd (isCancelled_chk pr))"
    "\<not> fst (advance_chk pr)" "neverCancels (snd (advance_chk pr))"
  using assms
  by (auto simp: neverCancels_def isCancelled_chk_def advance_chk_def IsCancelled_def Advance_def
        cancelled_now_def polled_def split: option.splits)

lemma hashLines_neverCancels:
  "neverCancels pr \<Longrightarrow>
   fst (hashLines v settings off ls pr acc) =
     acc @ map (\<lambda>lineNum. lineHash settings (docLineText v (int lineNum + off))) ls \<and>
   neverCancels (snd (hashLines v settings off ls pr acc))"
proof (induction ls arbitrary: pr acc)
  case Nil
  then show ?case by simp
next
  case (Cons lineNum ls)
  let ?pr' = "if lineNum mod 500 = 0 then snd (isCancelled_chk pr) else pr"
  have n: "neverCancels ?pr'" using Cons.prems neverCancels_checks(2) by simp
  have chk: "(if lineNum mod 500 = 0 then isCancelled_chk pr else (False, pr)) = (False, ?pr')"
    using neverCancels_checks(1) [OF Cons.prems] by (cases "isCancelled_chk pr") auto
  have "hashLines v settings off (lineNum # ls) pr acc =
        hashLines v settings off ls ?pr'
          (acc @ [lineHash settings (docLineText v (int lineNum + off))])"
    unfolding hashLines.simps chk by simp
  with Cons.IH [OF n] show ?case by simp
qed

lemma same_lines:
  assumes "sci_lines v = sci_lines v'"
  shows "docLineCount v = docLineCount v'" and "docLineText v n = docLineText v' n"
  using assms
  by (simp_all add: docLineCount_def docLineText_def getText_def SCI_GETLENGTH_def
        SCI_GETLINECOUNT_def SCI_POSITIONFROMLINE_def SCI_GETLINEENDPOSITION_def sci_text_def)

lemma sectionHashes_same:
  "sci_lines v = sci_lines v' \<Longrightarrow> sectionHashes v settings sec = sectionHashes v' settings sec"
  by (simp add: sectionHashes_def clampedSection_def same_lines [of v v'])

lemma computeLineHashes_neverCancels:
  assumes n: "neverCancels pr"
    and fits: "s_off (doc_section doc) \<le> docLineCount (getView npp (doc_view doc))"
  shows "\<exists>doc' pr'. computeLineHashes npp pr doc settings =
           Some (sectionHashes (getView npp (doc_view doc)) settings (doc_section doc), doc', pr') \<and>
           neverCancels pr'"
proof -
  let ?v = "getView npp (doc_view doc)"
  let ?sec = "clampedSection ?v (doc_section doc)"
  have len: "\<not> s_len ?sec < 0" using fits by (auto simp: clampedSection_def)
  let ?h = "hashLines ?v settings (s_off ?sec) [0..<nat (s_len ?sec)] pr []"
  have "computeLineHashes npp pr doc settings =
          Some (fst ?h, doc\<lparr>doc_section := ?sec\<rparr>, snd ?h)"
    using len fits
    by (auto simp: computeLineHashes_def Let_def clampedSection_def docLineCount_def
          split: prod.splits)
  with hashLines_neverCancels [OF n, of ?v settings "s_off ?sec" "[0..<nat (s_len ?sec)]" "[]"]
  show ?thesis by (simp add: sectionHashes_def)
qed

lemma runCompare_identical_match:
  assumes same: "identicalDocs npp mainViewSection subViewSection"
    and fits: "s_off mainViewSection \<le> docLineCount (mainView npp)"
    and silent: "silentOnEqual dcL"
    and never: "neverCancels progress"
  shows "\<exists>pr. runCompare dcL dcW npp progress mainViewSection subViewSection settings
                 alignmentInfo =
               Some \<lparr>cr_result = COMPARE_MATCH, cr_alignmentInfo = alignmentInfo, cr_npp = npp,
                     cr_progress = pr, cr_diffBlocks = []\<rparr>"
proof -
  let ?d1 = "\<lparr>doc_view = scintillaMainHandle, doc_section = mainViewSection,
                blockDiffMask = (if OldFileViewId settings = MAIN_VIEW
                                 then MARKER_MASK_REMOVED else MARKER_MASK_ADDED)\<rparr>"
  let ?d2 = "\<lparr>doc_view = scintillaSecondHandle, doc_section = subViewSection,
                  blockDiffMask = (if OldFileViewId settings = MAIN_VIEW
                                   then MARKER_MASK_ADDED else MARKER_MASK_REMOVED)\<rparr>"
  let ?hs = "sectionHashes (mainView npp) settings mainViewSection"
  from same have lines: "sci_lines (mainView npp) = sci_lines (secondView npp)"
    and secs: "subViewSection = mainViewSection"
    by (simp_all add: identicalDocs_def)
  from computeLineHashes_neverCancels [OF never, of ?d1 npp settings] fits
  obtain doc1 pr1 where
    h1: "computeLineHashes npp progress ?d1 settings = Some (?hs, doc1, pr1)"
    and n1: "neverCancels pr1"
    by (auto simp: getView_def)
  note c1 = neverCancels_checks(3,4) [OF n1]
  have fits2: "s_off (doc_section ?d2) \<le> docLineCount (getView npp (doc_view ?d2))"
    using fits secs same_lines(1) [OF lines] by (simp add: getView_def)
  from computeLineHashes_neverCancels [OF c1(2) fits2, of settings]
  obtain doc2 pr2 where
    h2: "computeLineHashes npp (snd (advance_chk pr1)) ?d2 settings = Some (?hs, doc2, pr2)"
    and n2: "neverCancels pr2"
    using secs sectionHashes_same [OF lines] by (auto simp: getView_def)
  note c2 = neverCancels_checks(3) [OF n2]
  from silent have "dcL d ?hs ?hs = []" for d by (simp add: silentOnEqual_def)
  then have "runCompare_diff dcL dcW npp (snd (advance_chk pr2)) ?hs ?hs doc1 doc2 settings
               alignmentInfo =
             Some \<lparr>cr_result = COMPARE_MATCH, cr_alignmentInfo = alignmentInfo, cr_npp = npp,
                   cr_progress = snd (advance_chk pr2), cr_diffBlocks = []\<rparr>"
    by (simp add: runCompare_diff_def)
  with h1 h2 c1(1) c2 show ?thesis
    by (simp add: runCompare_def)
qed

text \<open>
  Claim C1, as amended.  For every diff engine, an invocation that returns ends with
  \<open>COMPARE_MATCH\<close> exactly when it was not cancelled and its block list is empty, that is
  when the line diff returned no block at all; the caller's alignment list and both views
  are then as they were passed in.  For two documents with identical content (the same
  lines in both views, the same section, starting inside the document), a line diff engine
  that reports equal sequences by the empty script and a user who never cancels, the
  invocation returns, its result is \<open>COMPARE_MATCH\<close>, there is no diff block (no MATCH
  block, no changed line), and the alignment list and both views are untouched.
\<close>

theorem runCompare_identical:
  "(\<forall>r. runCompare dcL dcW npp progress mainViewSection subViewSection settings alignmentInfo =
          Some r \<longrightarrow>
        (cr_result r = COMPARE_MATCH) =
          (cr_diffBlocks r = [] \<and> cr_result r \<noteq> COMPARE_CANCELLED) \<and>
        (cr_result r = COMPARE_MATCH \<longrightarrow>
           cr_alignmentInfo r = alignmentInfo \<and> cr_npp r = npp)) \<and>
   (identicalDocs npp mainViewSection subViewSection \<and>
    s_off mainViewSection \<le> docLineCount (mainView npp) \<and>
    silentOnEqual dcL \<and> neverCancels progress \<longrightarrow>
      (\<exists>r. runCompare dcL dcW npp progress mainViewSection subViewSection settings
              alignmentInfo = Some r \<and>
           cr_result r = COMPARE_MATCH \<and> cr_diffBlocks r = [] \<and>
           cr_alignmentInfo r = alignmentInfo \<and> cr_npp r = npp))"
proof (intro conjI allI impI)
  fix r
  assume "runCompare dcL dcW npp progress mainViewSection subViewSection settings alignmentInfo =
          Some r"
  from runCompare_match_iff [OF this]
  show "(cr_result r = COMPARE_MATCH) =
          (cr_diffBlocks r = [] \<and> cr_result r \<noteq> COMPARE_CANCELLED)"
    and "cr_result r = COMPARE_MATCH \<Longrightarrow> cr_alignmentInfo r = alignmentInfo"
    and "cr_result r = COMPARE_MATCH \<Longrightarrow> cr_npp r = npp"
    by simp_all
next
  assume a: "identicalDocs npp mainViewSection subViewSection \<and>
    s_off mainViewSection \<le> docLineCount (mainView npp) \<and>
    silentOnEqual dcL \<and> neverCancels progress"
  from runCompare_identical_match [of npp mainViewSection subViewSection dcL progress dcW
         settings alignmentInfo] a
  obtain pr where "runCompare dcL dcW npp progress mainViewSection subViewSection settings
                 alignmentInfo =
               Some \<lparr>cr_result = COMPARE_MATCH, cr_alignmentInfo = alignmentInfo, cr_npp = npp,
                     cr_progress = pr, cr_diffBlocks = []\<rparr>" by blast
  then show "\<exists>r. runCompare dcL dcW npp progress mainViewSection subViewSection settings
              alignmentInfo = Some r \<and>
           cr_result r = COMPARE_MATCH \<and> cr_diffBlocks r = [] \<and>
           cr_alignmentInfo r = alignmentInfo \<and> cr_npp r = npp" by simp
qed

subsection \<open>The selection loop of the block reconciler\<close>

lemma nth_opt_upd:
  "upd_opt xs i v = Some ys \<Longrightarrow> nth_opt ys j = (if j = i then Some v else nth_opt xs j)"
  by (auto simp: upd_opt_def nth_opt_def nth_list_update split: if_splits)

lemma nth_opt_nonneg: "nth_opt xs i = Some v \<Longrightarrow> 0 \<le> i"
  by (simp add: nth_opt_def split: if_splits)

lemma scanLine2_best:
  "scanLine2 M L pB2 line1 ls st = Some st' \<Longrightarrow>
   (0 < fst st \<longrightarrow> convergenceOf M L line1 (snd (snd st)) = Some (fst st)) \<Longrightarrow>
   (0 < fst st' \<longrightarrow> convergenceOf M L line1 (snd (snd st')) = Some (fst st')) \<and>
   (snd (snd st') = snd (snd st) \<or> snd (snd st') \<in> set ls) \<and> fst st \<le> fst st'"
proof (induction ls arbitrary: st)
  case Nil
  then show ?case by simp
next
  case (Cons line2 ls)
  from Cons.prems(1) obtain row m where row: "nth_opt M line1 = Some row"
    and m: "nth_opt row line2 = Some m"
    by (auto split: Option.bind_splits)
  show ?case
  proof (cases "m = 0")
    case True
    with Cons.prems(1) row m have "scanLine2 M L pB2 line1 ls st = Some st'" by simp
    from Cons.IH [OF this Cons.prems(2)] show ?thesis by auto
  next
    case m0: False
    with Cons.prems(1) row m obtain l2 where l2: "nth_opt L line2 = Some l2"
      by (auto split: Option.bind_splits)
    have conv: "convergenceOf M L line1 line2 = Some (c_div (m * 100) l2)"
      using row m l2 by (simp add: convergenceOf_def)
    show ?thesis
    proof (cases "l2 = 0 \<or> isMoved pB2 line2 \<noteq> NOT_MOVED")
      case True
      with Cons.prems(1) row m m0 l2 have "scanLine2 M L pB2 line1 ls st = Some st'" by auto
      from Cons.IH [OF this Cons.prems(2)] show ?thesis by auto
    next
      case ok: False
      show ?thesis
      proof (cases "c_div (m * 100) l2 > fst st \<or>
                 (c_div (m * 100) l2 = fst st \<and> l2 > fst (snd st))")
        case True
        with Cons.prems(1) row m m0 l2 ok have
          rec: "scanLine2 M L pB2 line1 ls (c_div (m * 100) l2, l2, line2) = Some st'" by auto
        have "0 < fst (c_div (m * 100) l2, l2, line2) \<longrightarrow>
              convergenceOf M L line1 (snd (snd (c_div (m * 100) l2, l2, line2))) =
                Some (fst (c_div (m * 100) l2, l2, line2))"
          using conv by simp
        from Cons.IH [OF rec this] True show ?thesis by auto
      next
        case False
        with Cons.prems(1) row m m0 l2 ok have "scanLine2 M L pB2 line1 ls st = Some st'" by auto
        from Cons.IH [OF this Cons.prems(2)] show ?thesis by auto
      qed
    qed
  qed
qed

lemma selectLines_selected:
  "selectLines M L pB1 pB2 lineCount2 ls st = Some st' \<Longrightarrow>
   selected M L st \<Longrightarrow> distinct ls \<Longrightarrow> \<forall>l\<in>set ls. 0 \<le> l \<and> \<not> (\<exists>k. mappedTo (fst st) l k) \<Longrightarrow>
   selected M L st'"
proof (induction ls arbitrary: st)
  case Nil
  then show ?case by simp
next
  case (Cons line1 ls)
  have rest: "\<forall>l\<in>set ls. 0 \<le> l \<and> \<not> (\<exists>k. mappedTo (fst st) l k)" using Cons.prems(4) by simp
  have dist: "distinct ls" "line1 \<notin> set ls" using Cons.prems(3) by auto
  show ?case
  proof (cases "isMoved pB1 line1 \<noteq> NOT_MOVED")
    case True
    with Cons.prems(1) have "selectLines M L pB1 pB2 lineCount2 ls st = Some st'" by simp
    from Cons.IH [OF this Cons.prems(2) dist(1) rest] show ?thesis .
  next
    case False
    with Cons.prems(1) obtain best where
      scan: "scanLine2 M L pB2 line1 [snd (snd st)..lineCount2 - 1] (0, 0, snd (snd st)) = Some best"
      by (auto split: Option.bind_splits)
    from scanLine2_best [OF scan] have
      conv: "0 < fst best \<longrightarrow> convergenceOf M L line1 (snd (snd best)) = Some (fst best)"
      and ge: "snd (snd st) \<le> snd (snd best)"
      by auto
    show ?thesis
    proof (cases "fst best \<ge> 50")
      case no: False
      let ?st1 = "(fst st, fst (snd st), snd (snd best))"
      from Cons.prems(1) False scan no have
        rec: "selectLines M L pB1 pB2 lineCount2 ls ?st1 = Some st'" by simp
      have "selected M L ?st1"
        using Cons.prems(2) ge unfolding selected_def by fastforce
      from Cons.IH [OF rec this dist(1)] rest show ?thesis by simp
    next
      case yes: True
      with Cons.prems(1) False scan obtain mappings1 mappings2 where
        u1: "upd_opt (fst st) line1 (snd (snd best)) = Some mappings1"
        and u2: "upd_opt (fst (snd st)) (snd (snd best)) line1 = Some mappings2"
        and rec: "selectLines M L pB1 pB2 lineCount2 ls
                    (mappings1, mappings2, snd (snd best) + 1) = Some st'"
        by (auto split: Option.bind_splits)
      let ?b = "snd (snd best)"
      note n1 = nth_opt_upd [OF u1] and n2 = nth_opt_upd [OF u2]
      have l1: "0 \<le> line1" "\<not> (\<exists>k. mappedTo (fst st) line1 k)" using Cons.prems(4) by auto
      have b0: "0 \<le> ?b" using u2 by (simp add: upd_opt_def split: if_splits)
      have cv: "\<exists>c\<ge>50. convergenceOf M L line1 ?b = Some c" using conv yes by auto
      have A: "k < ?b + 1 \<and> nth_opt mappings2 k = Some l \<and>
              (\<exists>c\<ge>50. convergenceOf M L l k = Some c)" if m: "mappedTo mappings1 l k" for l k
      proof (cases "l = line1")
        case True
        with m n1 have "k = ?b" by (simp add: mappedTo_def)
        with True cv n2 show ?thesis by simp
      next
        case False
        with m n1 have "mappedTo (fst st) l k" by (simp add: mappedTo_def)
        with Cons.prems(2) have "k < snd (snd st)" "nth_opt (fst (snd st)) k = Some l"
          "\<exists>c\<ge>50. convergenceOf M L l k = Some c"
          unfolding selected_def by blast+
        with ge n2 show ?thesis by simp
      qed
      have B: "k < ?b + 1 \<and> nth_opt mappings1 l = Some k" if m: "mappedTo mappings2 k l" for k l
      proof (cases "k = ?b")
        case True
        with m n2 have "l = line1" by (simp add: mappedTo_def)
        with True n1 show ?thesis by simp
      next
        case False
        with m n2 have mm: "mappedTo (fst (snd st)) k l" by (simp add: mappedTo_def)
        with Cons.prems(2) have k: "nth_opt (fst st) l = Some k" and kc: "k < snd (snd st)"
          unfolding selected_def by blast+
        from mm have "0 \<le> k" by (auto simp: mappedTo_def dest: nth_opt_nonneg)
        with k have "mappedTo (fst st) l k" by (simp add: mappedTo_def)
        with l1 have "l \<noteq> line1" by blast
        with k n1 kc ge show ?thesis by simp
      qed
      have inv: "selected M L (mappings1, mappings2, ?b + 1)"
        unfolding selected_def using A B by simp
      have rest': "\<forall>l\<in>set ls. 0 \<le> l \<and> \<not> (\<exists>k. mappedTo (fst (mappings1, mappings2, ?b + 1)) l k)"
        using rest dist(2) n1 by (auto simp: mappedTo_def)
      from Cons.IH [OF rec inv dist(1) rest'] show ?thesis .
    qed
  qed
qed

lemma selected_injective:
  assumes "selected M L st"
  shows "injectiveMapping (fst st)" and "injectiveMapping (fst (snd st))"
proof -
  show "injectiveMapping (fst st)"
    unfolding injectiveMapping_def
  proof (intro allI impI)
    fix l l' k assume "mappedTo (fst st) l k \<and> mappedTo (fst st) l' k"
    with assms have "nth_opt (fst (snd st)) k = Some l" "nth_opt (fst (snd st)) k = Some l'"
      unfolding selected_def by blast+
    then show "l = l'" by simp
  qed
  show "injectiveMapping (fst (snd st))"
    unfolding injectiveMapping_def
  proof (intro allI impI)
    fix l l' k assume "mappedTo (fst (snd st)) l k \<and> mappedTo (fst (snd st)) l' k"
    with assms have "nth_opt (fst st) k = Some l" "nth_opt (fst st) k = Some l'"
      unfolding selected_def by blast+
    then show "l = l'" by simp
  qed
qed

subsection \<open>Line mappings of a reconciled pair\<close>

lemma unmapped_not_mappedTo: "unmapped ms \<Longrightarrow> \<not> mappedTo ms l k"
  by (auto simp: unmapped_def mappedTo_def nth_opt_def split: if_splits)

lemma unmapped_injective: "unmapped ms \<Longrightarrow> injectiveMapping ms"
  by (simp add: injectiveMapping_def unmapped_not_mappedTo)

lemma those_Some: "those xs = Some ys \<Longrightarrow> xs = map Some ys"
  by (induction xs arbitrary: ys) (auto split: option.splits)

lemma line2LenAll_nth:
  assumes "line2LenAll a = Some L" and "nth_opt L line2 = Some v"
  shows "line2LenOf (ac_pChunk2 a) line2 = Some v"
proof -
  let ?n = "lineCount (ac_pChunk2 a)"
  from assms(1) have eq: "map (line2LenOf (ac_pChunk2 a)) [0..?n - 1] = map Some L"
    unfolding line2LenAll_def by (rule those_Some)
  then have "length (map (line2LenOf (ac_pChunk2 a)) [0..?n - 1]) = length (map Some L)" by simp
  then have len: "length L = nat ?n" by simp
  from assms(2) have i: "0 \<le> line2" "nat line2 < length L" "L ! nat line2 = v"
    by (auto simp: nth_opt_def split: if_splits)
  from eq have "map (line2LenOf (ac_pChunk2 a)) [0..?n - 1] ! nat line2 = map Some L ! nat line2"
    by simp
  with i len have "line2LenOf (ac_pChunk2 a) ([0..?n - 1] ! nat line2) = Some v" by simp
  moreover have "[0..?n - 1] ! nat line2 = line2" using i len by simp
  ultimately show ?thesis by simp
qed

lemma getWords_loop_mappings:
  "getWords_loop v settings ls chunk = Some chunk' \<Longrightarrow> lineMappings chunk' = lineMappings chunk"
  by (induction ls arbitrary: chunk) (auto simp: Let_def split: Option.bind_splits)

lemma getWords_mappings:
  "getWords v settings chunk = Some chunk' \<Longrightarrow> lineMappings chunk' = lineMappings chunk"
  unfolding getWords_def by (drule getWords_loop_mappings) simp

lemma alignChunks_unmapped:
  assumes "alignChunks dcW npp doc1 doc2 settings blockDiff1 blockDiff2 = Some a"
  shows "unmapped (lineMappings (ac_pChunk1 a))" and "unmapped (lineMappings (ac_pChunk2 a))"
proof -
  from assms obtain c1 c2 chunk1 chunk2 where
    c: "new_chunk_info (d_off blockDiff1) (d_len blockDiff1) = Some c1"
       "new_chunk_info (d_off blockDiff2) (d_len blockDiff2) = Some c2"
       "getWords (getView npp (doc_view doc1)) settings c1 = Some chunk1"
       "getWords (getView npp (doc_view doc2)) settings c2 = Some chunk2"
    and a: "(ac_pChunk1 a = chunk1 \<and> ac_pChunk2 a = chunk2) \<or>
            (ac_pChunk1 a = chunk2 \<and> ac_pChunk2 a = chunk1)"
    unfolding alignChunks_def Let_def
    by (auto split: Option.bind_splits if_splits)
  from c(1,2) have "unmapped (lineMappings c1)" "unmapped (lineMappings c2)"
    by (auto simp: new_chunk_info_def unmapped_def split: if_splits)
  with getWords_mappings [OF c(3)] getWords_mappings [OF c(4)]
  have "unmapped (lineMappings chunk1)" "unmapped (lineMappings chunk2)" by simp_all
  with a show "unmapped (lineMappings (ac_pChunk1 a))" "unmapped (lineMappings (ac_pChunk2 a))"
    by auto
qed

lemma matchLines_selected:
  assumes ml: "matchLines a pBlockDiff1 pBlockDiff2 = Some chunks"
    and u1: "unmapped (lineMappings (ac_pChunk1 a))"
    and u2: "unmapped (lineMappings (ac_pChunk2 a))"
  shows "\<exists>M L c. lineWordsMatchAll a = Some M \<and> line2LenAll a = Some L \<and>
           selected M L (lineMappings (fst chunks), lineMappings (snd chunks), c)"
proof -
  from ml obtain L M sel where L: "line2LenAll a = Some L" and M: "lineWordsMatchAll a = Some M"
    and sel: "selectLines M L pBlockDiff1 pBlockDiff2 (lineCount (ac_pChunk2 a))
                [0..lineCount (ac_pChunk1 a) - 1]
                (lineMappings (ac_pChunk1 a), lineMappings (ac_pChunk2 a), 0) = Some sel"
    and ch: "chunks = ((ac_pChunk1 a)\<lparr>lineMappings := fst sel\<rparr>,
                       (ac_pChunk2 a)\<lparr>lineMappings := fst (snd sel)\<rparr>)"
    unfolding matchLines_def by (auto split: Option.bind_splits)
  have init: "selected M L (lineMappings (ac_pChunk1 a), lineMappings (ac_pChunk2 a), 0)"
    using u1 u2 by (simp add: selected_def unmapped_not_mappedTo)
  have "selected M L sel"
    by (rule selectLines_selected [OF sel init])
       (use u1 in \<open>auto simp: unmapped_not_mappedTo\<close>)
  then have "selected M L (lineMappings (fst chunks), lineMappings (snd chunks), snd (snd sel))"
    using ch by simp
  with L M show ?thesis by blast
qed

text \<open>Every recorded pair is recorded on both sides and reaches the threshold.\<close>

lemma matchLines_mutual:
  assumes "alignChunks dcW npp doc1 doc2 settings blockDiff1 blockDiff2 = Some a"
    and "matchLines a pBlockDiff1 pBlockDiff2 = Some chunks"
  shows "(\<forall>line1 line2. mappedTo (lineMappings (fst chunks)) line1 line2 \<longrightarrow>
            mappedTo (lineMappings (snd chunks)) line2 line1 \<and>
            (\<exists>c\<ge>50. pairConvergence a line1 line2 = Some c)) \<and>
         (\<forall>line1 line2 c. pairConvergence a line1 line2 = Some c \<and> c < 50 \<longrightarrow>
            \<not> mappedTo (lineMappings (fst chunks)) line1 line2)"
proof -
  from matchLines_selected [OF assms(2) alignChunks_unmapped [OF assms(1)]]
  obtain M L c where M: "lineWordsMatchAll a = Some M" and L: "line2LenAll a = Some L"
    and sel: "selected M L (lineMappings (fst chunks), lineMappings (snd chunks), c)"
    by blast
  have main: "mappedTo (lineMappings (snd chunks)) line2 line1 \<and>
            (\<exists>c\<ge>50. pairConvergence a line1 line2 = Some c)"
    if m: "mappedTo (lineMappings (fst chunks)) line1 line2" for line1 line2
  proof -
    from sel m have k: "nth_opt (lineMappings (snd chunks)) line2 = Some line1"
      and cv: "\<exists>c\<ge>50. convergenceOf M L line1 line2 = Some c"
      unfolding selected_def by auto
    from m have "0 \<le> line1" by (auto simp: mappedTo_def dest: nth_opt_nonneg)
    with k have k': "mappedTo (lineMappings (snd chunks)) line2 line1" by (simp add: mappedTo_def)
    from cv obtain c' row mm l2 where c': "50 \<le> c'" "nth_opt M line1 = Some row"
      "nth_opt row line2 = Some mm" "nth_opt L line2 = Some l2" "c' = c_div (mm * 100) l2"
      by (auto simp: convergenceOf_def split: Option.bind_splits)
    from line2LenAll_nth [OF L c'(4)] c' M have "pairConvergence a line1 line2 = Some c'"
      by (simp add: pairConvergence_def)
    with c'(1) k' show ?thesis by blast
  qed
  then show ?thesis by fastforce
qed

text \<open>
  Claim C4.  When \<open>compareBlocks\<close> returns, the line mappings of both chunks are injective:
  two lines of one chunk that are mapped to the same line of the other chunk are the same
  line.
\<close>

theorem compareBlocks_injective:
  assumes "compareBlocks dcW npp doc1 doc2 settings blockDiff1 blockDiff2 = Some r"
  shows "injectiveMapping (lineMappings (cb_pChunk1 r)) \<and>
         injectiveMapping (lineMappings (cb_pChunk2 r))"
proof -
  from assms obtain a where a: "alignChunks dcW npp doc1 doc2 settings blockDiff1 blockDiff2 = Some a"
    by (auto simp: compareBlocks_def split: Option.bind_splits)
  note u = alignChunks_unmapped [OF a]
  show ?thesis
  proof (cases "ac_chunkDiff a = []")
    case True
    with assms a have "cb_pChunk1 r = ac_pChunk1 a" "cb_pChunk2 r = ac_pChunk2 a"
      by (auto simp: compareBlocks_def)
    with u show ?thesis by (simp add: unmapped_injective)
  next
    case False
    with assms a obtain chunks where
      ch: "matchLines a (if ac_swapped a then blockDiff2 else blockDiff1)
                        (if ac_swapped a then blockDiff1 else blockDiff2) = Some chunks"
      and r: "cb_pChunk1 r = fst chunks" "cb_pChunk2 r = snd chunks"
      by (auto simp: compareBlocks_def split: Option.bind_splits)
    from matchLines_selected [OF ch u] obtain M L c where
      "selected M L (lineMappings (fst chunks), lineMappings (snd chunks), c)" by blast
    from selected_injective [OF this] r show ?thesis by simp
  qed
qed

subsection \<open>The selection loop: cursor and best candidate\<close>

lemma selectLines_append:
  "selectLines M L pB1 pB2 n2 (xs @ ys) st =
     Option.bind (selectLines M L pB1 pB2 n2 xs st) (selectLines M L pB1 pB2 n2 ys)"
  by (induction xs arbitrary: st) (auto split: Option.bind_split)

lemma selectLines_frame:
  "selectLines M L pB1 pB2 n2 ls st = Some st' \<Longrightarrow> l \<notin> set ls \<Longrightarrow>
   nth_opt (fst st') l = nth_opt (fst st) l"
proof (induction ls arbitrary: st)
  case Nil
  then show ?case by simp
next
  case (Cons line1 ls)
  from Cons.prems(2) have l: "l \<noteq> line1" "l \<notin> set ls" by auto
  show ?case
  proof (cases "isMoved pB1 line1 \<noteq> NOT_MOVED")
    case True
    with Cons.prems(1) have "selectLines M L pB1 pB2 n2 ls st = Some st'" by simp
    from Cons.IH [OF this l(2)] show ?thesis .
  next
    case False
    with Cons.prems(1) obtain best where
      scan: "scanLine2 M L pB2 line1 [snd (snd st)..n2 - 1] (0, 0, snd (snd st)) = Some best"
      by (auto split: Option.bind_splits)
    show ?thesis
    proof (cases "fst best \<ge> 50")
      case no: False
      with Cons.prems(1) False scan have
        "selectLines M L pB1 pB2 n2 ls (fst st, fst (snd st), snd (snd best)) = Some st'" by simp
      from Cons.IH [OF this l(2)] show ?thesis by simp
    next
      case True
      with Cons.prems(1) False scan obtain mappings1 mappings2 where
        u1: "upd_opt (fst st) line1 (snd (snd best)) = Some mappings1"
        and rec: "selectLines M L pB1 pB2 n2 ls (mappings1, mappings2, snd (snd best) + 1) = Some st'"
        by (auto split: Option.bind_splits)
      from Cons.IH [OF rec l(2)] nth_opt_upd [OF u1, of l] l(1) show ?thesis by simp
    qed
  qed
qed

lemma c_div_zero: "c_div 0 b = 0" "c_div a 0 = 0"
  by (simp_all add: c_div_def)

lemma scanLine2_mono:
  "scanLine2 M L pB2 line1 ls st = Some st' \<Longrightarrow> fst st \<le> fst st'"
proof (induction ls arbitrary: st)
  case Nil
  then show ?case by simp
next
  case (Cons l ls)
  from Cons.prems(1) obtain row m where row: "nth_opt M line1 = Some row"
    and m: "nth_opt row l = Some m"
    by (auto split: Option.bind_splits)
  define st1 where "st1 =
    (if m = 0 then st
     else if the (nth_opt L l) = 0 \<or> isMoved pB2 l \<noteq> NOT_MOVED then st
     else if c_div (m * 100) (the (nth_opt L l)) > fst st \<or>
             (c_div (m * 100) (the (nth_opt L l)) = fst st \<and> the (nth_opt L l) > fst (snd st))
     then (c_div (m * 100) (the (nth_opt L l)), the (nth_opt L l), l) else st)"
  have rec: "scanLine2 M L pB2 line1 ls st1 = Some st'"
    using Cons.prems(1) row m unfolding st1_def
    by (auto split: Option.bind_splits if_splits)
  have "fst st \<le> fst st1" unfolding st1_def by auto
  with Cons.IH [OF rec] show ?case by simp
qed

lemma scanLine2_max:
  "scanLine2 M L pB2 line1 ls st = Some st' \<Longrightarrow> 0 \<le> fst st \<Longrightarrow>
   line2 \<in> set ls \<Longrightarrow> isMoved pB2 line2 = NOT_MOVED \<Longrightarrow>
   convergenceOf M L line1 line2 = Some c \<Longrightarrow> c \<le> fst st'"
proof (induction ls arbitrary: st)
  case Nil
  then show ?case by simp
next
  case (Cons l ls)
  from Cons.prems(1) obtain row m where row: "nth_opt M line1 = Some row"
    and m: "nth_opt row l = Some m"
    by (auto split: Option.bind_splits)
  define st1 where "st1 =
    (if m = 0 then st
     else if the (nth_opt L l) = 0 \<or> isMoved pB2 l \<noteq> NOT_MOVED then st
     else if c_div (m * 100) (the (nth_opt L l)) > fst st \<or>
             (c_div (m * 100) (the (nth_opt L l)) = fst st \<and> the (nth_opt L l) > fst (snd st))
     then (c_div (m * 100) (the (nth_opt L l)), the (nth_opt L l), l) else st)"
  have rec: "scanLine2 M L pB2 line1 ls st1 = Some st'"
    using Cons.prems(1) row m unfolding st1_def
    by (auto split: Option.bind_splits if_splits)
  have ge: "fst st \<le> fst st1" "0 \<le> fst st1"
    using Cons.prems(2) unfolding st1_def by auto
  note mono = scanLine2_mono [OF rec]
  show ?case
  proof (cases "line2 = l")
    case False
    with Cons.prems(3) have "line2 \<in> set ls" by simp
    from Cons.IH [OF rec ge(2) this Cons.prems(4,5)] show ?thesis .
  next
    case True
    with Cons.prems(5) row m obtain l2 where l2: "nth_opt L l = Some l2"
      and c: "c = c_div (m * 100) l2"
      by (auto simp: convergenceOf_def split: Option.bind_splits)
    have "c \<le> fst st1"
      using c l2 ge Cons.prems(2,4) True unfolding st1_def by (auto simp: c_div_zero)
    with mono show ?thesis by simp
  qed
qed

lemma line2LenAll_length:
  assumes "line2LenAll a = Some L"
  shows "length L = nat (lineCount (ac_pChunk2 a))"
proof -
  from assms have "map (line2LenOf (ac_pChunk2 a)) [0..lineCount (ac_pChunk2 a) - 1] = map Some L"
    unfolding line2LenAll_def by (rule those_Some)
  then have "length (map (line2LenOf (ac_pChunk2 a)) [0..lineCount (ac_pChunk2 a) - 1]) =
             length (map Some L)" by simp
  then show ?thesis by simp
qed

lemma pairConvergence_convergenceOf:
  assumes M: "lineWordsMatchAll a = Some M" and L: "line2LenAll a = Some L"
    and lt: "line2 < lineCount (ac_pChunk2 a)"
    and pc: "pairConvergence a line1 line2 = Some c"
  shows "convergenceOf M L line1 line2 = Some c"
proof -
  from pc M obtain row m l2 where r: "nth_opt M line1 = Some row" "nth_opt row line2 = Some m"
    "line2LenOf (ac_pChunk2 a) line2 = Some l2" "c = c_div (m * 100) l2"
    by (auto simp: pairConvergence_def split: Option.bind_splits)
  from r(2) have "0 \<le> line2" by (rule nth_opt_nonneg)
  with lt line2LenAll_length [OF L] obtain v where v: "nth_opt L line2 = Some v"
    by (auto simp: nth_opt_def)
  from line2LenAll_nth [OF L v] r(3) have "v = l2" by simp
  with r v show "convergenceOf M L line1 line2 = Some c" by (simp add: convergenceOf_def)
qed

lemma convergenceOf_pairConvergence:
  assumes M: "lineWordsMatchAll a = Some M" and L: "line2LenAll a = Some L"
    and cv: "convergenceOf M L line1 line2 = Some c"
  shows "pairConvergence a line1 line2 = Some c"
proof -
  from cv obtain row m l2 where r: "nth_opt M line1 = Some row" "nth_opt row line2 = Some m"
    "nth_opt L line2 = Some l2" "c = c_div (m * 100) l2"
    by (auto simp: convergenceOf_def split: Option.bind_splits)
  from line2LenAll_nth [OF L r(3)] r M show "pairConvergence a line1 line2 = Some c"
    by (simp add: pairConvergence_def)
qed

text \<open>The pass of the selection loop for one line, seen from the whole loop.\<close>

lemma selectLines_at:
  assumes sel: "selectLines M L pB1 pB2 n2 [0..n1 - 1] st0 = Some sel"
    and l: "0 \<le> line1" "line1 \<le> n1 - 1"
  shows "\<exists>st st1. selectLines M L pB1 pB2 n2 [0..line1 - 1] st0 = Some st \<and>
           nth_opt (fst st) line1 = nth_opt (fst st0) line1 \<and>
           selectLines M L pB1 pB2 n2 [line1] st = Some st1 \<and>
           nth_opt (fst sel) line1 = nth_opt (fst st1) line1"
proof -
  have split: "[0..n1 - 1] = [0..line1 - 1] @ [line1] @ [line1 + 1..n1 - 1]"
    using upto_split3 [OF l] by simp
  from sel obtain st where st: "selectLines M L pB1 pB2 n2 [0..line1 - 1] st0 = Some st"
    and r1: "selectLines M L pB1 pB2 n2 ([line1] @ [line1 + 1..n1 - 1]) st = Some sel"
    unfolding split selectLines_append [of _ _ _ _ _ "[0..line1 - 1]"]
    by (auto split: Option.bind_splits)
  from r1 obtain st1 where st1: "selectLines M L pB1 pB2 n2 [line1] st = Some st1"
    and r2: "selectLines M L pB1 pB2 n2 [line1 + 1..n1 - 1] st1 = Some sel"
    unfolding selectLines_append [of _ _ _ _ _ "[line1]"]
    by (auto split: Option.bind_splits)
  have "nth_opt (fst st) line1 = nth_opt (fst st0) line1"
    by (rule selectLines_frame [OF st]) simp
  moreover have "nth_opt (fst sel) line1 = nth_opt (fst st1) line1"
    by (rule selectLines_frame [OF r2]) simp
  ultimately show ?thesis using st st1 by blast
qed

text \<open>What one pass does to the mapping of its own line.\<close>

lemma selectLines_one:
  assumes one: "selectLines M L pB1 pB2 n2 [line1] st = Some st1"
  shows "(isMoved pB1 line1 \<noteq> NOT_MOVED \<and> st1 = st) \<or>
         (isMoved pB1 line1 = NOT_MOVED \<and>
          (\<exists>best. scanLine2 M L pB2 line1 [snd (snd st)..n2 - 1] (0, 0, snd (snd st)) = Some best \<and>
             (if fst best \<ge> 50
              then nth_opt (fst st1) line1 = Some (snd (snd best)) \<and> 0 \<le> snd (snd best)
              else fst st1 = fst st)))"
proof (cases "isMoved pB1 line1 \<noteq> NOT_MOVED")
  case True
  with one show ?thesis by simp
next
  case False
  with one obtain best where
    scan: "scanLine2 M L pB2 line1 [snd (snd st)..n2 - 1] (0, 0, snd (snd st)) = Some best"
    by (auto split: Option.bind_splits)
  show ?thesis
  proof (cases "fst best \<ge> 50")
    case no: False
    with one False scan have "fst st1 = fst st" by auto
    with False scan no show ?thesis by auto
  next
    case True
    with one False scan obtain mappings1 mappings2 where
      u1: "upd_opt (fst st) line1 (snd (snd best)) = Some mappings1"
      and u2: "upd_opt (fst (snd st)) (snd (snd best)) line1 = Some mappings2"
      and st1: "st1 = (mappings1, mappings2, snd (snd best) + 1)"
      by (auto split: Option.bind_splits)
    from u2 have "0 \<le> snd (snd best)" by (simp add: upd_opt_def split: if_splits)
    with nth_opt_upd [OF u1, of line1] st1 False scan True show ?thesis by auto
  qed
qed

text \<open>
  Claim C3, as amended.  After the selection loop of \<open>compareBlocks\<close>:
  every line pair that is recorded in the line mappings of the first chunk is recorded in
  the line mappings of the second chunk as well, has a convergence (matched alphanumeric
  words of the pair times 100, divided by the alphanumeric words of the second chunk's
  line) of at least 50, lies at or behind the cursor (the value of \<open>bestMatchingLine2\<close>
  when the loop reaches the pair's first line), and is a best candidate there: no line of
  the second chunk from the cursor on that is not moved has a greater convergence with the
  first line;
  a pair whose convergence is below 50 is not recorded;
  and a line of the first chunk that is not moved and meets, at or behind the cursor, a
  line that is not moved with a convergence of at least 50 is recorded.
  (A pair with a convergence of 50 or more that is not such a best candidate is not
  recorded: see the counterexample.)
\<close>

theorem matchLines_best_candidate:
  assumes align: "alignChunks dcW npp doc1 doc2 settings blockDiff1 blockDiff2 = Some a"
    and ml: "matchLines a pBlockDiff1 pBlockDiff2 = Some chunks"
  shows "(\<forall>line1 line2. mappedTo (lineMappings (fst chunks)) line1 line2 \<longrightarrow>
            mappedTo (lineMappings (snd chunks)) line2 line1 \<and>
            (\<exists>c cur. 50 \<le> c \<and> pairConvergence a line1 line2 = Some c \<and>
               cursorAt a pBlockDiff1 pBlockDiff2 line1 = Some cur \<and> cur \<le> line2 \<and>
               bestFrom a pBlockDiff2 cur line1 c)) \<and>
         (\<forall>line1 line2 c. pairConvergence a line1 line2 = Some c \<and> c < 50 \<longrightarrow>
            \<not> mappedTo (lineMappings (fst chunks)) line1 line2) \<and>
         (\<forall>line1 line2 cur c.
            0 \<le> line1 \<and> line1 < lineCount (ac_pChunk1 a) \<and>
            isMoved pBlockDiff1 line1 = NOT_MOVED \<and>
            cursorAt a pBlockDiff1 pBlockDiff2 line1 = Some cur \<and>
            cur \<le> line2 \<and> line2 < lineCount (ac_pChunk2 a) \<and>
            isMoved pBlockDiff2 line2 = NOT_MOVED \<and>
            pairConvergence a line1 line2 = Some c \<and> 50 \<le> c \<longrightarrow>
            (\<exists>line2'. mappedTo (lineMappings (fst chunks)) line1 line2'))"
proof -
  let ?n1 = "lineCount (ac_pChunk1 a)" and ?n2 = "lineCount (ac_pChunk2 a)"
  let ?st0 = "(lineMappings (ac_pChunk1 a), lineMappings (ac_pChunk2 a), 0::int)"
  note u = alignChunks_unmapped [OF align]
  note mutual = matchLines_mutual [OF align ml]
  from ml obtain L M sel where L: "line2LenAll a = Some L" and M: "lineWordsMatchAll a = Some M"
    and sel: "selectLines M L pBlockDiff1 pBlockDiff2 ?n2 [0..?n1 - 1] ?st0 = Some sel"
    and ch: "lineMappings (fst chunks) = fst sel"
    unfolding matchLines_def by (auto split: Option.bind_splits)
  have cursor: "cursorAt a pBlockDiff1 pBlockDiff2 line1 = Some (snd (snd st))"
    if "selectLines M L pBlockDiff1 pBlockDiff2 ?n2 [0..line1 - 1] ?st0 = Some st" for line1 st
    using that L M by (simp add: cursorAt_def)
  have A: "\<exists>c cur. 50 \<le> c \<and> pairConvergence a line1 line2 = Some c \<and>
               cursorAt a pBlockDiff1 pBlockDiff2 line1 = Some cur \<and> cur \<le> line2 \<and>
               bestFrom a pBlockDiff2 cur line1 c"
    if mp: "mappedTo (lineMappings (fst chunks)) line1 line2" for line1 line2
  proof -
    have rng: "0 \<le> line1 \<and> line1 \<le> ?n1 - 1"
    proof (rule ccontr)
      assume "\<not> (0 \<le> line1 \<and> line1 \<le> ?n1 - 1)"
      then have "line1 \<notin> set [0..?n1 - 1]" by auto
      from selectLines_frame [OF sel this] mp ch
      have "mappedTo (lineMappings (ac_pChunk1 a)) line1 line2" by (simp add: mappedTo_def)
      with u(1) show False by (simp add: unmapped_not_mappedTo)
    qed
    from selectLines_at [OF sel] rng obtain st st1 where
      st: "selectLines M L pBlockDiff1 pBlockDiff2 ?n2 [0..line1 - 1] ?st0 = Some st"
      and before: "nth_opt (fst st) line1 = nth_opt (fst ?st0) line1"
      and one: "selectLines M L pBlockDiff1 pBlockDiff2 ?n2 [line1] st = Some st1"
      and after: "nth_opt (fst sel) line1 = nth_opt (fst st1) line1"
      by blast
    have notyet: "\<not> mappedTo (fst st) line1 line2"
      using before u(1) unmapped_not_mappedTo [of "lineMappings (ac_pChunk1 a)" line1 line2]
      by (simp add: mappedTo_def)
    have now: "mappedTo (fst st1) line1 line2"
      using mp ch after by (simp add: mappedTo_def)
    let ?cur = "snd (snd st)"
    from selectLines_one [OF one] notyet now obtain best where
      scan: "scanLine2 M L pBlockDiff2 line1 [?cur..?n2 - 1] (0, 0, ?cur) = Some best"
      and best: "50 \<le> fst best" "line2 = snd (snd best)"
      by (auto simp: mappedTo_def split: if_splits)
    from scanLine2_best [OF scan] best have
      cv: "convergenceOf M L line1 line2 = Some (fst best)" and ge: "?cur \<le> line2"
      by auto
    have "bestFrom a pBlockDiff2 ?cur line1 (fst best)"
      unfolding bestFrom_def list_all_iff
    proof (intro ballI)
      fix l2 assume l2: "l2 \<in> set [?cur..?n2 - 1]"
      show "isMoved pBlockDiff2 l2 \<noteq> NOT_MOVED \<or>
            (case pairConvergence a line1 l2 of None \<Rightarrow> True | Some c' \<Rightarrow> c' \<le> fst best)"
      proof (cases "isMoved pBlockDiff2 l2 = NOT_MOVED")
        case False
        then show ?thesis by simp
      next
        case nm: True
        show ?thesis
        proof (cases "pairConvergence a line1 l2")
          case None
          then show ?thesis by simp
        next
          case (Some c')
          from l2 have "l2 < ?n2" by simp
          from pairConvergence_convergenceOf [OF M L this Some]
          have "convergenceOf M L line1 l2 = Some c'" .
          from scanLine2_max [OF scan _ l2 nm this] Some show ?thesis by simp
        qed
      qed
    qed
    with convergenceOf_pairConvergence [OF M L cv] best(1) cursor [OF st] ge
    show ?thesis by blast
  qed
  have C: "\<exists>line2'. mappedTo (lineMappings (fst chunks)) line1 line2'"
    if p: "0 \<le> line1" "line1 < ?n1" "isMoved pBlockDiff1 line1 = NOT_MOVED"
      "cursorAt a pBlockDiff1 pBlockDiff2 line1 = Some cur"
      "cur \<le> line2" "line2 < ?n2" "isMoved pBlockDiff2 line2 = NOT_MOVED"
      "pairConvergence a line1 line2 = Some c" "50 \<le> c" for line1 line2 cur c
  proof -
    from selectLines_at [OF sel p(1)] p(2) obtain st st1 where
      st: "selectLines M L pBlockDiff1 pBlockDiff2 ?n2 [0..line1 - 1] ?st0 = Some st"
      and one: "selectLines M L pBlockDiff1 pBlockDiff2 ?n2 [line1] st = Some st1"
      and after: "nth_opt (fst sel) line1 = nth_opt (fst st1) line1"
      by auto
    from cursor [OF st] p(4) have cur: "cur = snd (snd st)" by simp
    from selectLines_one [OF one] p(3) obtain best where
      scan: "scanLine2 M L pBlockDiff2 line1 [cur..?n2 - 1] (0, 0, cur) = Some best"
      and res: "if fst best \<ge> 50
                then nth_opt (fst st1) line1 = Some (snd (snd best)) \<and> 0 \<le> snd (snd best)
                else fst st1 = fst st"
      unfolding cur by auto
    have "line2 \<in> set [cur..?n2 - 1]" using p(5,6) by simp
    from scanLine2_max [OF scan _ this p(7) pairConvergence_convergenceOf [OF M L p(6) p(8)]]
    have "c \<le> fst best" by simp
    with p(9) res have "nth_opt (fst st1) line1 = Some (snd (snd best))" "0 \<le> snd (snd best)"
      by auto
    with after ch have "mappedTo (lineMappings (fst chunks)) line1 (snd (snd best))"
      by (simp add: mappedTo_def)
    then show ?thesis ..
  qed
  from mutual A C show ?thesis by blast
qed

subsection \<open>The probe loop of the sub-block offset locator\<close>

lemma countAlnum_mono: "countAlnum ws is n = Some n' \<Longrightarrow> n \<le> n'"
proof (induction "is" arbitrary: n)
  case Nil
  then show ?case by simp
next
  case (Cons i "is")
  then obtain word where "nth_opt ws i = Some word"
    and "countAlnum ws is (if w_type word = ALPHANUMCHAR then n + 1 else n) = Some n'"
    by (auto split: Option.bind_splits)
  from Cons.IH [OF this(2)] show ?case by (simp split: if_splits)
qed

lemma matchingWords_mono: "matchingWords ws cds n = Some n' \<Longrightarrow> n \<le> n'"
proof (induction cds arbitrary: n)
  case Nil
  then show ?case by simp
next
  case (Cons cd cds)
  show ?case
  proof (cases "d_type cd = DIFF_MATCH")
    case True
    with Cons.prems obtain k where k: "countAlnum ws [d_off cd..d_off cd + d_len cd - 1] n = Some k"
      and r: "matchingWords ws cds k = Some n'"
      by (auto split: Option.bind_splits)
    from countAlnum_mono [OF k] Cons.IH [OF r] show ?thesis by simp
  next
    case False
    with Cons show ?thesis by simp
  qed
qed

lemma probeCount_nonneg: "probeCount dcW s l ln = Some m \<Longrightarrow> 0 \<le> m \<and> 0 \<le> ln"
  by (auto simp: probeCount_def Let_def split: Option.bind_splits dest: matchingWords_mono nth_opt_nonneg)

lemma halve_step:
  assumes "1 \<le> step"
  shows "1 \<le> c_div step 2 + c_mod step 2" and "2 \<le> step \<Longrightarrow> c_div step 2 + c_mod step 2 < step"
    and "step = 1 \<Longrightarrow> c_div step 2 + c_mod step 2 = 1"
proof -
  from assms have d: "c_div step 2 = step div 2" by (simp add: c_div_def sgn_if)
  then have m: "c_mod step 2 = step mod 2" by (simp add: c_mod_def minus_mult_div_eq_mod)
  from assms show "1 \<le> c_div step 2 + c_mod step 2" unfolding d m by presburger
  show "2 \<le> step \<Longrightarrow> c_div step 2 + c_mod step 2 < step" unfolding d m by presburger
  show "step = 1 \<Longrightarrow> c_div step 2 + c_mod step 2 = 1" unfolding d m by simp
qed

lemma wf_probeMeasure: "wf (probeMeasure endLine)"
  by (simp add: probeMeasure_def)

lemma probeLoop_ends_aux:
  assumes E: "0 \<le> endLine"
  shows "\<forall>best. 1 \<le> fst t \<longrightarrow> bestSoFar dcW s l endLine (fst (snd t)) best (snd (snd t)) \<longrightarrow>
         (\<exists>e. probeLoop dcW s l endLine (fst t) (fst (snd t)) best (snd (snd t)) = Some e \<and>
              probedOffset dcW s l endLine e)"
proof (rule wf_induct [OF wf_probeMeasure [of endLine], of _ t], intro allI impI)
  fix x best
  assume hyp: "\<forall>y. (y, x) \<in> probeMeasure endLine \<longrightarrow>
          (\<forall>best. 1 \<le> fst y \<longrightarrow> bestSoFar dcW s l endLine (fst (snd y)) best (snd (snd y)) \<longrightarrow>
         (\<exists>e. probeLoop dcW s l endLine (fst y) (fst (snd y)) best (snd (snd y)) = Some e \<and>
              probedOffset dcW s l endLine e))"
    and step0: "1 \<le> fst x"
    and inv0: "bestSoFar dcW s l endLine (fst (snd x)) best (snd (snd x))"
  obtain step ln bestOff where x: "x = (step, ln, bestOff)" by (cases x) auto
  from step0 x have step: "1 \<le> step" by simp
  from inv0 x have inv: "bestSoFar dcW s l endLine ln best bestOff" by simp
  have IH: "\<exists>e. probeLoop dcW s l endLine step' ln' best' bestOff' = Some e \<and>
              probedOffset dcW s l endLine e"
    if "((step', ln', bestOff'), (step, ln, bestOff)) \<in> probeMeasure endLine" "1 \<le> step'"
      "bestSoFar dcW s l endLine ln' best' bestOff'" for step' ln' best' bestOff'
    using hyp [rule_format, of "(step', ln', bestOff')" best'] that x by simp
  have "\<exists>e. probeLoop dcW s l endLine step ln best bestOff = Some e \<and>
              probedOffset dcW s l endLine e"
  proof -
  note unf = probeLoop.simps [of dcW s l endLine step ln best bestOff]
  let ?s' = "c_div step 2 + c_mod step 2"
  note h = halve_step [OF step]
  show ?thesis
  proof (cases "ln \<le> endLine \<and> ln \<noteq> bestOff")
    case False
    with inv E have "bestOff \<noteq> - 1" by (auto simp: bestSoFar_def)
    with inv False show ?thesis
      by (subst unf) (auto simp: bestSoFar_def probedOffset_def)
  next
    case True
    show ?thesis
    proof (cases "probeCount dcW s l ln")
      case None
      with True show ?thesis by (subst unf) (simp add: probedOffset_def)
    next
      case (Some m)
      from probeCount_nonneg [OF Some] have m0: "0 \<le> m" and l0: "0 \<le> ln" by auto
      show ?thesis
      proof (cases "best > m")
        case down: True
        with inv m0 have inv': "0 \<le> bestOff" "bestOff \<le> endLine" "0 < best"
          "probeCount dcW s l bestOff = Some best"
          by (auto simp: bestSoFar_def)
        then have inv2: "bestSoFar dcW s l endLine (ln - ?s') best bestOff"
          by (simp add: bestSoFar_def)
        have eq: "probeLoop dcW s l endLine step ln best bestOff =
                  probeLoop dcW s l endLine ?s' (ln - ?s') best bestOff"
          using True Some down by (subst unf) simp
        show ?thesis
        proof (cases "ln - ?s' = bestOff")
          case True
          have "probeLoop dcW s l endLine ?s' (ln - ?s') best bestOff = Some (Offset bestOff)"
            using True by (subst probeLoop.simps) simp
          with eq inv' show ?thesis by (auto simp: probedOffset_def)
        next
          case nb: False
          have "((?s', ln - ?s', bestOff), (step, ln, bestOff)) \<in> probeMeasure endLine"
          proof (cases "2 \<le> step")
            case True
            with h(2) h(1) show ?thesis by (simp add: probeMeasure_def)
          next
            case False
            with step have s1: "step = 1" by simp
            with h(3) have s': "?s' = 1" by simp
            from nb s' have "bestOff \<noteq> ln - 1" by simp
            with s1 s' l0 show ?thesis by (auto simp: probeMeasure_def)
          qed
          from IH [OF this h(1) inv2] eq show ?thesis by simp
        qed
      next
        case up: False
        show ?thesis
        proof (cases "m = 0")
          case True
          with \<open>ln \<le> endLine \<and> ln \<noteq> bestOff\<close> Some up E show ?thesis
            by (subst unf) (simp add: probedOffset_def)
        next
          case False
          with m0 have mp: "0 < m" by simp
          have eq: "probeLoop dcW s l endLine step ln best bestOff =
                    probeLoop dcW s l endLine ?s' (ln + ?s') m ln"
            using True Some up False by (subst unf) simp
          have inv2: "bestSoFar dcW s l endLine (ln + ?s') m ln"
            using True l0 mp Some by (simp add: bestSoFar_def)
          have "((?s', ln + ?s', ln), (step, ln, bestOff)) \<in> probeMeasure endLine"
          proof (cases "2 \<le> step")
            case True
            with h(2) h(1) show ?thesis by (simp add: probeMeasure_def)
          next
            case False
            with step have s1: "step = 1" by simp
            with h(3) have s': "?s' = 1" by simp
            with s1 l0 True show ?thesis by (auto simp: probeMeasure_def)
          qed
          from IH [OF this h(1) inv2] eq show ?thesis by simp
        qed
      qed
    qed
  qed
qed
  with x show "\<exists>e. probeLoop dcW s l endLine (fst x) (fst (snd x)) best (snd (snd x)) = Some e \<and>
              probedOffset dcW s l endLine e" by simp
qed

lemma probeLoop_ends:
  assumes "0 \<le> endLine" and "1 \<le> step" and "bestSoFar dcW s l endLine ln best bestOff"
  shows "\<exists>e. probeLoop dcW s l endLine step ln best bestOff = Some e \<and>
             probedOffset dcW s l endLine e"
  using probeLoop_ends_aux [OF assms(1), of "(step, ln, bestOff)" dcW s l] assms(2,3) by simp

lemma locator_always_ends:
  "\<exists>e. getBestMatchingSubChunkOffset dcW shorterChunk longerChunk = Some e"
proof (cases "lineCount longerChunk - lineCount shorterChunk \<le> 0")
  case True
  then show ?thesis by (simp add: getBestMatchingSubChunkOffset_def)
next
  case False
  let ?endLine = "lineCount longerChunk - lineCount shorterChunk"
  from False have E: "0 \<le> ?endLine" "1 \<le> ?endLine + 1" by simp_all
  have "bestSoFar dcW shorterChunk longerChunk ?endLine 0 0 (- 1)"
    by (simp add: bestSoFar_def)
  from probeLoop_ends [OF E this] False show ?thesis
    by (auto simp: getBestMatchingSubChunkOffset_def Let_def)
qed

text \<open>How the locator ends: with a probed offset of the candidate range, or at an
  out-of-bounds probe.\<close>

lemma locator_exit_probed:
  assumes "lineCount shorterChunk \<le> lineCount longerChunk"
  shows "\<exists>e. getBestMatchingSubChunkOffset dcW shorterChunk longerChunk = Some e \<and>
             probedOffset dcW shorterChunk longerChunk
               (lineCount longerChunk - lineCount shorterChunk) e \<and>
             (if probeCount dcW shorterChunk longerChunk 0 = Some 0 then e = Offset 0 else True)"
proof -
  let ?endLine = "lineCount longerChunk - lineCount shorterChunk"
  from assms have E: "0 \<le> ?endLine" by simp
  show ?thesis
  proof (cases "?endLine \<le> 0")
    case True
    then show ?thesis using E
      by (simp add: getBestMatchingSubChunkOffset_def probedOffset_def)
  next
    case False
    then have g: "getBestMatchingSubChunkOffset dcW shorterChunk longerChunk =
                  probeLoop dcW shorterChunk longerChunk ?endLine (?endLine + 1) 0 0 (- 1)"
      by (simp add: getBestMatchingSubChunkOffset_def Let_def)
    have "bestSoFar dcW shorterChunk longerChunk ?endLine 0 0 (- 1)"
      by (simp add: bestSoFar_def)
    from probeLoop_ends [OF E _ this, of "?endLine + 1"] E obtain e where
      e: "probeLoop dcW shorterChunk longerChunk ?endLine (?endLine + 1) 0 0 (- 1) = Some e"
      "probedOffset dcW shorterChunk longerChunk ?endLine e" by auto
    have "e = Offset 0" if "probeCount dcW shorterChunk longerChunk 0 = Some 0"
      using e(1) that False
      by (subst (asm) probeLoop.simps) simp
    with e g show ?thesis by auto
  qed
qed

subsection \<open>Concrete runs\<close>

lemma same_docs_run:
  "resultAndBlocks (run_docs DiffCalc_lines [''a''] [''a''] None) = Some (COMPARE_MISMATCH, [(DIFF_MATCH, 0, 1)])"
  unfolding resultAndBlocks_def run_docs_def blocksOf_def by code_simp

lemma same_docs_run_silent:
  "resultAndBlocks (run_docs DiffCalc_lines_silent [''a''] [''a''] None) = Some (COMPARE_MATCH, [])"
  unfolding resultAndBlocks_def run_docs_def blocksOf_def by code_simp

lemma cancelled_marking_run:
  "leftBehind (run_docs DiffCalc_lines [''foo bar''] [''foo baz''] (Some 8)) =
     Some (COMPARE_CANCELLED, 2, [(1, MARKER_MASK_CHANGED)], [(1, MARKER_MASK_CHANGED)])"
  unfolding leftBehind_def run_docs_def by code_simp

lemma blank_line_run:
  "linesAfter (run_docs DiffCalc_lines [''a''] [''b''] None) = Some ([[], ''a''], [[], ''b''])"
  unfolding linesAfter_def run_docs_def docLines_def by code_simp

lemma foo_blocks_eval:
  "compareBlocks DiffCalc_words (npp_of [''foo bar''] [''foo baz''])
     (docMain 1) (docSecond 1) settings0 (block1 1) (block2 1) = Some foo_blocks"
  unfolding foo_blocks_def by code_simp

lemma ab_aligned_eval:
  "alignChunks DiffCalc_words (npp_of [''a b''] [''a'', ''b''])
     (docMain 1) (docSecond 2) settings0 (block1 1) (block2 2) = Some ab_aligned"
  unfolding ab_aligned_def by code_simp

lemma ab_chunks_eval: "matchLines ab_aligned (block2 2) (block1 1) = Some ab_chunks"
  unfolding ab_chunks_def ab_aligned_def by code_simp

lemma ab_blocks_eval:
  "compareBlocks DiffCalc_words (npp_of [''a b''] [''a'', ''b''])
     (docMain 1) (docSecond 2) settings0 (block1 1) (block2 2) = Some ab_blocks"
  unfolding ab_blocks_def by code_simp

lemma foo_run_eval:
  "runCompare DiffCalc_lines DiffCalc_words (npp_of [''foo bar''] [''foo baz''])
     None wholeDoc wholeDoc settings0 [] = Some foo_run"
  unfolding foo_run_def by code_simp

lemma foo_cancelled_run_eval:
  "runCompare DiffCalc_lines DiffCalc_words (npp_of [''foo bar''] [''foo baz''])
     (Some \<lparr>polls = 0, cancelAt = Some 8\<rparr>) wholeDoc wholeDoc settings0 [] = Some foo_cancelled_run"
  unfolding foo_cancelled_run_def by code_simp

lemma ab_facts:
  "ac_swapped ab_aligned" "pairConvergence ab_aligned 1 0 = Some 50"
  "pairConvergence ab_aligned 0 0 = Some 50"
  "lineMappings (fst ab_chunks) = [0, - 1]" "lineMappings (snd ab_chunks) = [0]"
  unfolding ab_chunks_def ab_aligned_def by code_simp+

lemma far_probe:
  "map (probeCount DiffCalc_words (chunk_of [''x y .'']) (chunk_of far_lines)) [0, 9, 4, 1, - 1] =
     [Some 2, Some 1, Some 1, Some 1, None]"
  by code_simp

lemma far_locator:
  "getBestMatchingSubChunkOffset DiffCalc_words (chunk_of [''x y .'']) (chunk_of far_lines) =
     Some (OutOfBounds (- 1))"
  by code_simp

lemma far_run:
  "runCompare DiffCalc_lines DiffCalc_words (npp_of [''x y .''] far_lines)
     None wholeDoc wholeDoc settings0 [] = None"
  by code_simp

lemma pick_aligned_eval:
  "alignChunks DiffCalc_words (npp_of [''a b c d'', ''k m''] [''a x'', ''b c d'', ''k n''])
     (docMain 2) (docSecond 3) settings0 (block1 2) (block2 3) = Some pick_aligned"
  unfolding pick_aligned_def by code_simp

lemma pick_chunks_eval: "matchLines pick_aligned (block1 2) (block2 3) = Some pick_chunks"
  unfolding pick_chunks_def pick_aligned_def by code_simp

lemma pick_mappings:
  "lineMappings (fst pick_chunks) = [1, 2]" "lineMappings (snd pick_chunks) = [- 1, 0, 1]"
  unfolding pick_chunks_def pick_aligned_def by code_simp+

lemma pick_convergence:
  "pairConvergence pick_aligned 0 0 = Some 50" "pairConvergence pick_aligned 0 1 = Some 100"
  "pairConvergence pick_aligned 1 1 = Some 0" "pairConvergence pick_aligned 1 2 = Some 50"
  unfolding pick_aligned_def by code_simp+

lemma pick_cursor:
  "cursorAt pick_aligned (block1 2) (block2 3) 0 = Some 0"
  "cursorAt pick_aligned (block1 2) (block2 3) 1 = Some 2"
  unfolding pick_aligned_def by code_simp+

lemma pick_lines:
  "lineCount (ac_pChunk1 pick_aligned) = 2" "lineCount (ac_pChunk2 pick_aligned) = 3"
  "isMoved (block1 2) 1 = NOT_MOVED" "isMoved (block2 3) 2 = NOT_MOVED"
  unfolding pick_aligned_def by code_simp+

lemma trio_lines_eval:
  "compareLines DiffCalc_words (block1 3) (block2 3)
     (cb_pChunk1 trio_blocks) (cb_pChunk2 trio_blocks) =
   Some (cb_blockDiff1 trio_blocks, cb_blockDiff2 trio_blocks)"
  unfolding trio_blocks_def by code_simp

lemma trio_facts:
  "lineMappings (cb_pChunk1 trio_blocks) = [0, - 1, 2]"
  "changedLines (cb_blockDiff1 trio_blocks) =
     [\<lparr>dl_line = 0, dl_changes = [\<lparr>s_off = 4, s_len = 3\<rparr>]\<rparr>,
      \<lparr>dl_line = 2, dl_changes = [\<lparr>s_off = 2, s_len = 1\<rparr>]\<rparr>]"
  "changedLines (cb_blockDiff2 trio_blocks) =
     [\<lparr>dl_line = 0, dl_changes = [\<lparr>s_off = 4, s_len = 3\<rparr>]\<rparr>,
      \<lparr>dl_line = 2, dl_changes = [\<lparr>s_off = 2, s_len = 1\<rparr>]\<rparr>]"
  "filter (changedLine DiffCalc_words (cb_pChunk1 trio_blocks) (cb_pChunk2 trio_blocks))
     [0..lineCount (cb_pChunk1 trio_blocks) - 1] = [0, 2]"
  unfolding trio_blocks_def by code_simp+

lemma same_run_eval:
  "runCompare DiffCalc_lines_silent DiffCalc_words (npp_of [''a'', ''b''] [''a'', ''b''])
     (Some \<lparr>polls = 0, cancelAt = None\<rparr>) wholeDoc wholeDoc settings0 [] = Some same_run"
  unfolding same_run_def by code_simp

lemma same_run_facts:
  "cr_result same_run = COMPARE_MATCH" "cr_diffBlocks same_run = []"
  unfolding same_run_def by code_simp+

lemma same_docs_facts:
  "identicalDocs (npp_of [''a'', ''b''] [''a'', ''b'']) wholeDoc wholeDoc"
  "s_off wholeDoc \<le> docLineCount (mainView (npp_of [''a'', ''b''] [''a'', ''b'']))"
  "neverCancels (Some \<lparr>polls = 0, cancelAt = None\<rparr>)"
  by code_simp+

lemma silentOnEqual_DiffCalc_lines_silent: "silentOnEqual DiffCalc_lines_silent"
  by (simp add: silentOnEqual_def DiffCalc_lines_silent_def)

lemma long_probe:
  "lineCount (chunk_of near_lines) \<le> lineCount (chunk_of long_lines)"
  "map (probeCount DiffCalc_words (chunk_of near_lines) (chunk_of long_lines)) [0, 9, 4, 1, - 1] =
     [Some 3, Some 1, Some 1, Some 1, None]"
  by code_simp+

lemma long_locator:
  "getBestMatchingSubChunkOffset DiffCalc_words (chunk_of near_lines) (chunk_of long_lines) =
     Some (OutOfBounds (- 1))"
  by code_simp

lemma long_blocks:
  "compareBlocks DiffCalc_words (npp_of near_lines long_lines)
     (docMain 2) (docSecond 19) settings0 (block1 2) (block2 19) = None"
  by code_simp

lemma long_run:
  "runCompare DiffCalc_lines DiffCalc_words (npp_of near_lines long_lines)
     None wholeDoc wholeDoc settings0 [] = None"
  by code_simp

lemma toBlocks_fresh:
  "\<forall>bd\<in>set acc. matchedDiff bd = None \<Longrightarrow> \<forall>bd\<in>set (toBlocks ts i j acc). matchedDiff bd = None"
proof (induction ts arbitrary: i j acc)
  case Nil
  then show ?case by simp
next
  case (Cons t ts)
  let ?acc' = "if acc \<noteq> [] \<and> d_type (last acc) = t
        then butlast acc @ [(last acc)\<lparr>d_len := d_len (last acc) + 1\<rparr>]
        else acc @ [new_diff_info t (if t = DIFF_IN_2 then j else i) 1]"
  have "\<forall>bd\<in>set ?acc'. matchedDiff bd = None"
    using Cons.prems by (auto simp: new_diff_info_def dest: in_set_butlastD)
  from Cons.IH [OF this] show ?case by simp
qed

lemma freshBlocks_DiffCalc_lines: "freshBlocks DiffCalc_lines"
  unfolding freshBlocks_def DiffCalc_lines_def DiffCalc_def
  using toBlocks_fresh [of "[]"] by simp

subsection \<open>Witnesses and counterexamples\<close>

text \<open>
  Witness for C7: the lines "foo bar", "zzz", "k m" against "foo baz", "yyy", "k n".
  Lines 0 and 2 are mapped and changed, line 1 is not mapped; each block gets two entries,
  for "foo bar" / "foo baz" one change covering the characters from 4 up to 7.
\<close>

theorem compareLines_changes_witness:
  "compareLines DiffCalc_words (block1 3) (block2 3)
     (cb_pChunk1 trio_blocks) (cb_pChunk2 trio_blocks) =
     Some (cb_blockDiff1 trio_blocks, cb_blockDiff2 trio_blocks) \<and>
   lineMappings (cb_pChunk1 trio_blocks) = [0, - 1, 2] \<and>
   filter (changedLine DiffCalc_words (cb_pChunk1 trio_blocks) (cb_pChunk2 trio_blocks))
     [0..lineCount (cb_pChunk1 trio_blocks) - 1] = [0, 2] \<and>
   changedLines (cb_blockDiff1 trio_blocks) =
     [\<lparr>dl_line = 0, dl_changes = [\<lparr>s_off = 4, s_len = 3\<rparr>]\<rparr>,
      \<lparr>dl_line = 2, dl_changes = [\<lparr>s_off = 2, s_len = 1\<rparr>]\<rparr>] \<and>
   changedLines (cb_blockDiff2 trio_blocks) =
     [\<lparr>dl_line = 0, dl_changes = [\<lparr>s_off = 4, s_len = 3\<rparr>]\<rparr>,
      \<lparr>dl_line = 2, dl_changes = [\<lparr>s_off = 2, s_len = 1\<rparr>]\<rparr>] \<and>
   (\<exists>n1 n2.
      changedLines (fst (cb_blockDiff1 trio_blocks, cb_blockDiff2 trio_blocks)) =
        changedLines (block1 3) @ n1 \<and>
      changedLines (snd (cb_blockDiff1 trio_blocks, cb_blockDiff2 trio_blocks)) =
        changedLines (block2 3) @ n2 \<and>
      map dl_line n1 =
        filter (changedLine DiffCalc_words (cb_pChunk1 trio_blocks) (cb_pChunk2 trio_blocks))
          [0..lineCount (cb_pChunk1 trio_blocks) - 1] \<and>
      list_all2 (changedPair DiffCalc_words (cb_pChunk1 trio_blocks) (cb_pChunk2 trio_blocks))
        n1 n2)"
  by (intro conjI trio_lines_eval trio_facts compareLines_changes [OF trio_lines_eval])

text \<open>
  Witness for C10: "foo bar" against "foo baz".
\<close>

theorem compareBlocks_changedLines_paired_witness:
  "compareBlocks DiffCalc_words (npp_of [''foo bar''] [''foo baz''])
     (docMain 1) (docSecond 1) settings0 (block1 1) (block2 1) = Some foo_blocks \<and>
   changedLines (block1 1) = [] \<and> changedLines (block2 1) = [] \<and>
   list_all2 (mappedPair (cb_pChunk1 foo_blocks))
     (changedLines (cb_pBlockDiff1 foo_blocks)) (changedLines (cb_pBlockDiff2 foo_blocks)) \<and>
   length (changedLines (cb_blockDiff1 foo_blocks)) = length (changedLines (cb_blockDiff2 foo_blocks))"
proof -
  have e1: "changedLines (block1 1) = []" and e2: "changedLines (block2 1) = []"
    by (simp_all add: block1_def block2_def new_diff_info_def)
  from compareBlocks_changedLines_paired [OF foo_blocks_eval e1 e2] foo_blocks_eval e1 e2
  show ?thesis by blast
qed

text \<open>
  Witness for C4: the line "a b" against the lines "a", "b".
\<close>

theorem compareBlocks_injective_witness:
  "compareBlocks DiffCalc_words (npp_of [''a b''] [''a'', ''b''])
     (docMain 1) (docSecond 2) settings0 (block1 1) (block2 2) = Some ab_blocks \<and>
   injectiveMapping (lineMappings (cb_pChunk1 ab_blocks)) \<and>
   injectiveMapping (lineMappings (cb_pChunk2 ab_blocks))"
  using compareBlocks_injective [OF ab_blocks_eval] ab_blocks_eval by blast

text \<open>
  Witness for C3: the lines "a b c d", "k m" against "a x", "b c d", "k n".  Line 0 has
  the candidates 0 (convergence 50) and 1 (convergence 100) and is recorded with line 1;
  the cursor is then 2, and line 1 is recorded with line 2 (convergence 50).  The pair
  (1, 1) has convergence 0 and is not recorded.
\<close>

theorem matchLines_best_candidate_witness:
  "alignChunks DiffCalc_words (npp_of [''a b c d'', ''k m''] [''a x'', ''b c d'', ''k n''])
     (docMain 2) (docSecond 3) settings0 (block1 2) (block2 3) = Some pick_aligned \<and>
   matchLines pick_aligned (block1 2) (block2 3) = Some pick_chunks \<and>
   lineMappings (fst pick_chunks) = [1, 2] \<and> lineMappings (snd pick_chunks) = [- 1, 0, 1] \<and>
   pairConvergence pick_aligned 0 0 = Some 50 \<and>
   pairConvergence pick_aligned 0 1 = Some 100 \<and>
   pairConvergence pick_aligned 1 1 = Some 0 \<and>
   pairConvergence pick_aligned 1 2 = Some 50 \<and>
   cursorAt pick_aligned (block1 2) (block2 3) 0 = Some 0 \<and>
   cursorAt pick_aligned (block1 2) (block2 3) 1 = Some 2 \<and>
   mappedTo (lineMappings (snd pick_chunks)) 1 0 \<and>
   (\<exists>c cur. 50 \<le> c \<and> pairConvergence pick_aligned 0 1 = Some c \<and>
      cursorAt pick_aligned (block1 2) (block2 3) 0 = Some cur \<and> cur \<le> 1 \<and>
      bestFrom pick_aligned (block2 3) cur 0 c) \<and>
   \<not> mappedTo (lineMappings (fst pick_chunks)) 1 1 \<and>
   (\<exists>line2'. mappedTo (lineMappings (fst pick_chunks)) 1 line2')"
proof -
  note t = matchLines_best_candidate [OF pick_aligned_eval pick_chunks_eval]
  have m: "mappedTo (lineMappings (fst pick_chunks)) 0 1"
    by (simp add: pick_mappings mappedTo_def nth_opt_def)
  from t m have
    a: "mappedTo (lineMappings (snd pick_chunks)) 1 0 \<and>
        (\<exists>c cur. 50 \<le> c \<and> pairConvergence pick_aligned 0 1 = Some c \<and>
           cursorAt pick_aligned (block1 2) (block2 3) 0 = Some cur \<and> cur \<le> 1 \<and>
           bestFrom pick_aligned (block2 3) cur 0 c)"
    by blast
  have "pairConvergence pick_aligned 1 1 = Some 0 \<and> (0::int) < 50"
    using pick_convergence(3) by simp
  with t have b: "\<not> mappedTo (lineMappings (fst pick_chunks)) 1 1" by blast
  have "(0::int) \<le> 1 \<and> 1 < lineCount (ac_pChunk1 pick_aligned) \<and>
        isMoved (block1 2) 1 = NOT_MOVED \<and>
        cursorAt pick_aligned (block1 2) (block2 3) 1 = Some 2 \<and>
        (2::int) \<le> 2 \<and> 2 < lineCount (ac_pChunk2 pick_aligned) \<and>
        isMoved (block2 3) 2 = NOT_MOVED \<and>
        pairConvergence pick_aligned 1 2 = Some 50 \<and> (50::int) \<le> 50"
    using pick_lines pick_cursor(2) pick_convergence(4) by simp
  with t have c: "\<exists>line2'. mappedTo (lineMappings (fst pick_chunks)) 1 line2'" by blast
  from a b c show ?thesis
    by (intro conjI pick_aligned_eval pick_chunks_eval pick_mappings pick_convergence pick_cursor)
       blast+
qed

text \<open>
  Counterexample to C3 as stated: the line "a b" against the lines "a", "b".  After both
  swaps the first chunk holds "a", "b" and the second "a b".  The pairs (0, 0) and (1, 0)
  both have convergence 50; (0, 0) is recorded and moves the cursor past line 0, so line 1
  stays unmapped although the convergence of (1, 0) is not below 50.
\<close>

theorem matchLines_threshold_counterexample:
  "alignChunks DiffCalc_words (npp_of [''a b''] [''a'', ''b''])
     (docMain 1) (docSecond 2) settings0 (block1 1) (block2 2) = Some ab_aligned \<and>
   matchLines ab_aligned (block2 2) (block1 1) = Some ab_chunks \<and>
   pairConvergence ab_aligned 1 0 = Some 50 \<and>
   lineMappings (fst ab_chunks) = [0, - 1] \<and> lineMappings (snd ab_chunks) = [0]"
  by (intro conjI ab_aligned_eval ab_chunks_eval ab_facts)

text \<open>
  Witness for C1: the two-line document "a", "b" compared with itself by the engine that
  is silent on equal sequences, under a progress sink that is never cancelled.
\<close>

theorem runCompare_identical_witness:
  "identicalDocs (npp_of [''a'', ''b''] [''a'', ''b'']) wholeDoc wholeDoc \<and>
   s_off wholeDoc \<le> docLineCount (mainView (npp_of [''a'', ''b''] [''a'', ''b''])) \<and>
   silentOnEqual DiffCalc_lines_silent \<and>
   neverCancels (Some \<lparr>polls = 0, cancelAt = None\<rparr>) \<and>
   runCompare DiffCalc_lines_silent DiffCalc_words (npp_of [''a'', ''b''] [''a'', ''b''])
     (Some \<lparr>polls = 0, cancelAt = None\<rparr>) wholeDoc wholeDoc settings0 [] = Some same_run \<and>
   cr_result same_run = COMPARE_MATCH \<and> cr_diffBlocks same_run = [] \<and>
   cr_alignmentInfo same_run = [] \<and>
   cr_npp same_run = npp_of [''a'', ''b''] [''a'', ''b''] \<and>
   (\<exists>r. runCompare DiffCalc_lines_silent DiffCalc_words (npp_of [''a'', ''b''] [''a'', ''b''])
          (Some \<lparr>polls = 0, cancelAt = None\<rparr>) wholeDoc wholeDoc settings0 [] = Some r \<and>
        cr_result r = COMPARE_MATCH \<and> cr_diffBlocks r = [] \<and>
        cr_alignmentInfo r = [] \<and> cr_npp r = npp_of [''a'', ''b''] [''a'', ''b''])"
proof -
  note t = runCompare_identical [of DiffCalc_lines_silent DiffCalc_words
             "npp_of [''a'', ''b''] [''a'', ''b'']" "Some \<lparr>polls = 0, cancelAt = None\<rparr>"
             wholeDoc wholeDoc settings0 "[]"]
  from t same_run_eval same_run_facts(1) have
    a: "cr_alignmentInfo same_run = [] \<and> cr_npp same_run = npp_of [''a'', ''b''] [''a'', ''b'']"
    by blast
  from t same_docs_facts silentOnEqual_DiffCalc_lines_silent have
    b: "\<exists>r. runCompare DiffCalc_lines_silent DiffCalc_words (npp_of [''a'', ''b''] [''a'', ''b''])
          (Some \<lparr>polls = 0, cancelAt = None\<rparr>) wholeDoc wholeDoc settings0 [] = Some r \<and>
        cr_result r = COMPARE_MATCH \<and> cr_diffBlocks r = [] \<and>
        cr_alignmentInfo r = [] \<and> cr_npp r = npp_of [''a'', ''b''] [''a'', ''b'']"
    by blast
  from a b show ?thesis
    by (intro conjI same_docs_facts silentOnEqual_DiffCalc_lines_silent same_run_eval
          same_run_facts) blast+
qed

text \<open>
  Counterexample to C1 as stated, for the two one-line documents "a" and "a".  With the
  engine that yields one MATCH block for identical input, the block list is that one block
  and the result is \<open>COMPARE_MISMATCH\<close>; with the engine that yields the empty script, the
  result is \<open>COMPARE_MATCH\<close> and there is no block.  In neither reading does one MATCH block
  come with the result \<open>COMPARE_MATCH\<close>.
\<close>

theorem runCompare_identity_counterexample:
  "resultAndBlocks (run_docs DiffCalc_lines [''a''] [''a''] None) =
     Some (COMPARE_MISMATCH, [(DIFF_MATCH, 0, 1)]) \<and>
   resultAndBlocks (run_docs DiffCalc_lines_silent [''a''] [''a''] None) =
     Some (COMPARE_MATCH, [])"
  by (intro conjI same_docs_run same_docs_run_silent)

lemma foo_cancelled_reported: "reported (cr_progress foo_cancelled_run)"
  unfolding foo_cancelled_run_def by code_simp

text \<open>
  Witness for C2: "foo bar" against "foo baz", cancelled from the ninth query on.
\<close>

theorem runCompare_cancelled_iff_reported_witness:
  "runCompare DiffCalc_lines DiffCalc_words (npp_of [''foo bar''] [''foo baz''])
     (Some \<lparr>polls = 0, cancelAt = Some 8\<rparr>) wholeDoc wholeDoc settings0 [] = Some foo_cancelled_run \<and>
   reported (cr_progress foo_cancelled_run) \<and>
   (cr_result foo_cancelled_run = COMPARE_CANCELLED) = reported (cr_progress foo_cancelled_run)"
  using runCompare_cancelled_iff_reported [OF foo_cancelled_run_eval] foo_cancelled_run_eval
    foo_cancelled_reported
  by blast

text \<open>
  Counterexample to C2 as stated: "foo bar" against "foo baz", cancelled from the ninth
  query on (the first query of the marking phase).  The result is \<open>COMPARE_CANCELLED\<close>, yet
  the alignment list holds two entries and both views keep the marker of the changed line.
\<close>

theorem runCompare_cancelled_counterexample:
  "leftBehind (run_docs DiffCalc_lines [''foo bar''] [''foo baz''] (Some 8)) =
     Some (COMPARE_CANCELLED, 2, [(1, MARKER_MASK_CHANGED)], [(1, MARKER_MASK_CHANGED)])"
  by (rule cancelled_marking_run)

lemma foo_run_pairs:
  "map matchedDiff (cr_diffBlocks foo_run) = [Some 1, Some 0]"
  unfolding foo_run_def by code_simp

text \<open>
  Witness for C5: "foo bar" against "foo baz"; the two blocks refer to each other.
\<close>

theorem runCompare_pairs_reciprocal_witness:
  "runCompare DiffCalc_lines DiffCalc_words (npp_of [''foo bar''] [''foo baz''])
     None wholeDoc wholeDoc settings0 [] = Some foo_run \<and>
   freshBlocks DiffCalc_lines \<and>
   map matchedDiff (cr_diffBlocks foo_run) = [Some 1, Some 0] \<and>
   reciprocalPairs (cr_diffBlocks foo_run) \<and>
   (\<forall>i. \<not> (pairsAt (cr_diffBlocks foo_run) i \<and> pairsAt (cr_diffBlocks foo_run) (Suc i)))"
  using runCompare_pairs_reciprocal [OF foo_run_eval freshBlocks_DiffCalc_lines] foo_run_eval
    freshBlocks_DiffCalc_lines foo_run_pairs
  by blast

lemma ab_run_eval:
  "runCompare DiffCalc_lines DiffCalc_words (npp_of [''a''] [''b''])
     None wholeDoc wholeDoc settings0 [] = Some ab_run"
  unfolding ab_run_def by code_simp

text \<open>
  Witness for C6: the documents "a" and "b".
\<close>

theorem runCompare_text_witness:
  "runCompare DiffCalc_lines DiffCalc_words (npp_of [''a''] [''b''])
     None wholeDoc wholeDoc settings0 [] = Some ab_run \<and>
   docLines (cr_npp ab_run) =
     (if startsWithDiff (cr_diffBlocks ab_run) wholeDoc wholeDoc
      then withBlankLines (docLines (npp_of [''a''] [''b''])) else docLines (npp_of [''a''] [''b'']))"
  using runCompare_text [OF ab_run_eval] ab_run_eval by blast

text \<open>
  Counterexample to C6 as stated: after comparing the documents "a" and "b", each of them
  starts with a blank line.
\<close>

theorem runCompare_text_counterexample:
  "linesAfter (run_docs DiffCalc_lines [''a''] [''b''] None) = Some ([[], ''a''], [[], ''b''])"
  by (rule blank_line_run)

text \<open>
  Claim C8 fails on the code.  The lines "a b .", "c ." against the 19 lines "a b", "c",
  ..., "c": the shorter chunk is not longer than the longer one, the probe of line 0
  counts 3 matching words and the probes of the lines 9, 4 and 1 count one each, so the
  next probe is line -1.  The locator does not return a probed candidate of the range
  from 0 to 17 but reads \<open>lineStartWordIdx[-1]\<close>; \<open>compareBlocks\<close> and \<open>runCompare\<close> have
  no defined outcome on these documents.
\<close>

theorem locator_no_offset:
  "lineCount (chunk_of near_lines) \<le> lineCount (chunk_of long_lines) \<and>
   map (probeCount DiffCalc_words (chunk_of near_lines) (chunk_of long_lines)) [0, 9, 4, 1, - 1] =
     [Some 3, Some 1, Some 1, Some 1, None] \<and>
   getBestMatchingSubChunkOffset DiffCalc_words (chunk_of near_lines) (chunk_of long_lines) =
     Some (OutOfBounds (- 1)) \<and>
   compareBlocks DiffCalc_words (npp_of near_lines long_lines)
     (docMain 2) (docSecond 19) settings0 (block1 2) (block2 19) = None \<and>
   runCompare DiffCalc_lines DiffCalc_words (npp_of near_lines long_lines)
     None wholeDoc wholeDoc settings0 [] = None"
  by (intro conjI long_probe long_locator long_blocks long_run)

text \<open>
  Claim C9 fails on the code.  The line "x y ." against the 17 lines "x y", "x", ..., "x":
  the probes of the lines 0, 9, 4 and 1 count 2, 1, 1 and 1 matching words, so the next
  probe is line -1.  The test of the loop has no lower bound, the loop goes on and reads
  \<open>lineStartWordIdx[-1]\<close>; \<open>runCompare\<close> has no defined outcome on these two documents.
\<close>

theorem locator_probe_below_zero:
  "map (probeCount DiffCalc_words (chunk_of [''x y .'']) (chunk_of far_lines)) [0, 9, 4, 1, - 1] =
     [Some 2, Some 1, Some 1, Some 1, None] \<and>
   getBestMatchingSubChunkOffset DiffCalc_words (chunk_of [''x y .'']) (chunk_of far_lines) =
     Some (OutOfBounds (- 1)) \<and>
   runCompare DiffCalc_lines DiffCalc_words (npp_of [''x y .''] far_lines)
     None wholeDoc wholeDoc settings0 [] = None"
  by (intro conjI far_probe far_locator far_run)

end
